theory Spec2Isabelle
  imports Main "HOL-Library.Word"
begin

unbundle bit_operations_syntax

section \<open>Machine types and failure values\<close>

type_synonym byte = "8 word"
type_synonym uint16 = "16 word"
type_synonym uint32 = "32 word"
type_synonym uint64 = "64 word"
type_synonym uint128 = "128 word"

text \<open>
  Every way in which the C++ code can stop instead of returning is a value of \<open>error\<close>:
  \<^item> \<open>Fatal msg\<close>: a call of \<^verbatim>\<open>Fatal\<close> or \<^verbatim>\<open>FatalIf\<close> (the process is terminated);
  \<^item> \<open>AssertionFailed\<close>: an \<^verbatim>\<open>ASSERT\<close> that does not hold, in a debug build;
  \<^item> \<open>ShiftOutOfRange\<close>: a built-in shift by at least the width of its operand
    (undefined behaviour in C++);
  \<^item> \<open>OutOfBounds\<close>: a read or write outside the memory region that a pointer designates;
  \<^item> \<open>NullPointer\<close>: a dereference of a null pointer;
  \<^item> \<open>DivisionByZero\<close>: an integer division by zero.
\<close>

datatype error =
    Fatal string
  | AssertionFailed
  | ShiftOutOfRange
  | OutOfBounds
  | NullPointer
  | DivisionByZero

text \<open>
  \<^verbatim>\<open>ASSERT\<close> is compiled in only in debug builds; the kind of build is the parameter
  \<open>dbg\<close> of every function that asserts something.
\<close>

definition assert_fails :: "bool \<Rightarrow> bool \<Rightarrow> bool" where
  "assert_fails dbg cond = (dbg \<and> \<not> cond)"

section \<open>BitReader (util/BitView.h)\<close>

subsection \<open>Bytes, fields and byte order\<close>

text \<open>
  The reader is handed a \<^verbatim>\<open>uint64*\<close> over bytes that were written as big-endian 64-bit
  fields. The header comment of the class states that the host is little-endian
  ("transforming the data back to little endian"), so the value the host loads from eight
  bytes of memory is \<open>load64_le\<close> of them, and the bytes of a field \<open>f\<close> on disk are
  \<open>store64_be f\<close>.
\<close>

definition store64_be :: "uint64 \<Rightarrow> byte list" where
  "store64_be f = map (\<lambda>i. ucast (drop_bit (56 - 8 * i) f)) [0..<8]"

definition load64_le :: "byte list \<Rightarrow> uint64" where
  "load64_le bs = foldr (\<lambda>b acc. ucast b OR push_bit 8 acc) bs 0"

text \<open>
  Modelled from the spec: \<^verbatim>\<open>Swap64\<close> is declared in Util.h, which is not part of the
  sources. The spec says that construction "byte-swaps" each field "to native order":
  \<open>Swap64\<close> reverses the order of the eight bytes of its argument.
\<close>

definition Swap64 :: "uint64 \<Rightarrow> uint64" where
  "Swap64 x =
     push_bit 56 (take_bit 8 x) OR
     push_bit 48 (take_bit 8 (drop_bit 8 x)) OR
     push_bit 40 (take_bit 8 (drop_bit 16 x)) OR
     push_bit 32 (take_bit 8 (drop_bit 24 x)) OR
     push_bit 24 (take_bit 8 (drop_bit 32 x)) OR
     push_bit 16 (take_bit 8 (drop_bit 40 x)) OR
     push_bit 8 (take_bit 8 (drop_bit 48 x)) OR
     take_bit 8 (drop_bit 56 x)"

text \<open>Sequencing of computations that can fail: the first error ends the computation.\<close>

definition bindE :: "error + 'a \<Rightarrow> ('a \<Rightarrow> error + 'b) \<Rightarrow> error + 'b" where
  "bindE m f = (case m of Inl e \<Rightarrow> Inl e | Inr x \<Rightarrow> f x)"

text \<open>The built-in shifts of C++ on a 64-bit operand: undefined from 64 on.\<close>

definition shr64 :: "uint64 \<Rightarrow> nat \<Rightarrow> error + uint64" where
  "shr64 x s = (if s < 64 then Inr (drop_bit s x) else Inl ShiftOutOfRange)"

definition shl64 :: "uint64 \<Rightarrow> nat \<Rightarrow> error + uint64" where
  "shl64 x s = (if s < 64 then Inr (push_bit s x) else Inl ShiftOutOfRange)"

text \<open>
  \<^verbatim>\<open>uint128\<close> is a class type of the repository (it is built from two 64-bit halves,
  \<^verbatim>\<open>uint128( hi, lo )\<close>); its shift operators are taken to be defined for amounts below 128.
\<close>

definition shr128 :: "uint128 \<Rightarrow> nat \<Rightarrow> error + uint128" where
  "shr128 x s = (if s < 128 then Inr (drop_bit s x) else Inl ShiftOutOfRange)"

definition shl128 :: "uint128 \<Rightarrow> nat \<Rightarrow> error + uint128" where
  "shl128 x s = (if s < 128 then Inr (push_bit s x) else Inl ShiftOutOfRange)"

subsection \<open>The reader\<close>

text \<open>The members \<^verbatim>\<open>_fields\<close>, \<^verbatim>\<open>_position\<close> and \<^verbatim>\<open>_sizeBits\<close>.\<close>

record BitReader =
  m_fields :: "uint64 list"
  m_position :: uint64
  m_sizeBits :: uint64

text \<open>\<^verbatim>\<open>_fields[i]\<close>: a read outside the buffer is an error of the model.\<close>

definition field_at :: "BitReader \<Rightarrow> uint64 \<Rightarrow> error + uint64" where
  "field_at r i = (if unat i < length (m_fields r) then Inr (m_fields r ! unat i) else Inl OutOfBounds)"

text \<open>
  The constructor's loop \<^verbatim>\<open>for( uint64 i = 0; i < fieldCount; i++ ) bytesBE[i] = Swap64( bytesBE[i] )\<close>.
\<close>

function swap_fields :: "nat \<Rightarrow> nat \<Rightarrow> uint64 list \<Rightarrow> error + uint64 list" where
  "swap_fields i fieldCount bytesBE =
     (if i < fieldCount then
        (if i < length bytesBE
         then swap_fields (i + 1) fieldCount (bytesBE[i := Swap64 (bytesBE ! i)])
         else Inl OutOfBounds)
      else Inr bytesBE)"
  by pat_completeness auto
termination
  by (relation "measure (\<lambda>(i, fieldCount, bytesBE). fieldCount - i)") auto

definition BitReader_init :: "bool \<Rightarrow> uint64 list \<Rightarrow> uint64 \<Rightarrow> error + BitReader" where
  "BitReader_init dbg bytesBE sizeBits =
     (if assert_fails dbg (sizeBits div 64 * 64 = sizeBits) then Inl AssertionFailed
      else if assert_fails dbg (sizeBits \<le> 0x7FFFFFFFFFFFFFFF) then Inl AssertionFailed
      else
        let fieldCount = sizeBits div 64 in
        bindE (swap_fields 0 (unat fieldCount) bytesBE) (\<lambda>swapped.
        let bitsRemainder = sizeBits - fieldCount * 64 in
        if bitsRemainder \<noteq> 0 then
          (if unat fieldCount < length swapped then
             bindE (shl64 (swapped ! unat fieldCount) (unat (64 - bitsRemainder))) (\<lambda>shifted.
             Inr \<lparr>m_fields = swapped[unat fieldCount := Swap64 shifted],
                  m_position = 0, m_sizeBits = sizeBits\<rparr>)
           else Inl OutOfBounds)
        else Inr \<lparr>m_fields = swapped, m_position = 0, m_sizeBits = sizeBits\<rparr>))"

text \<open>
  The shift amounts of \<^verbatim>\<open>ReadBits64\<close>, as the function computes them in 32-bit unsigned
  arithmetic: \<open>bitsAvailable\<close> is the 64-bit difference truncated to \<^verbatim>\<open>uint32\<close>.
\<close>

definition bitsAvailable :: "uint64 \<Rightarrow> uint32" where
  "bitsAvailable pos = ucast (((drop_bit 6 pos + 1) * 64) - pos)"

definition field_shift :: "uint64 \<Rightarrow> uint32 \<Rightarrow> uint32" where
  "field_shift pos bitCount = max bitCount (bitsAvailable pos) - bitCount"

definition bitsNeeded :: "uint64 \<Rightarrow> uint32 \<Rightarrow> uint32" where
  "bitsNeeded pos bitCount = bitCount - bitsAvailable pos"

definition cross_shift :: "uint64 \<Rightarrow> uint32 \<Rightarrow> uint32" where
  "cross_shift pos bitCount = 64 - bitsNeeded pos bitCount"

definition mask_shift :: "uint32 \<Rightarrow> uint32" where
  "mask_shift bitCount = 64 - bitCount"

definition ReadBits64 :: "bool \<Rightarrow> BitReader \<Rightarrow> uint32 \<Rightarrow> error + (uint64 \<times> BitReader)" where
  "ReadBits64 dbg r bitCount =
     (if assert_fails dbg (bitCount \<le> 64) then Inl AssertionFailed
      else if assert_fails dbg (m_position r + ucast bitCount \<le> m_sizeBits r) then Inl AssertionFailed
      else
        let fieldIndex = drop_bit 6 (m_position r) in
        bindE (field_at r fieldIndex) (\<lambda>f0.
        bindE (shr64 f0 (unat (field_shift (m_position r) bitCount))) (\<lambda>value0.
        bindE (if bitsAvailable (m_position r) < bitCount then
                 bindE (field_at r (fieldIndex + 1)) (\<lambda>f1.
                 bindE (shl64 value0 (unat (bitsNeeded (m_position r) bitCount))) (\<lambda>hi.
                 bindE (shr64 f1 (unat (cross_shift (m_position r) bitCount))) (\<lambda>lo.
                 Inr (hi OR lo))))
               else Inr value0) (\<lambda>value1.
        bindE (shr64 0xFFFFFFFFFFFFFFFF (unat (mask_shift bitCount))) (\<lambda>m.
        Inr (value1 AND m, r\<lparr>m_position := m_position r + ucast bitCount\<rparr>))))))"

text \<open>
  \<^verbatim>\<open>ReadBits128\<close>. The first field is shifted as a 64-bit value and then widened. In the
  branch that needs two more fields, \<^verbatim>\<open>_fields[fieldIndex+1] << lastFieldBitsNeeded\<close> has a
  \<^verbatim>\<open>uint64\<close> left operand and a \<^verbatim>\<open>uint32\<close> right operand: it is the built-in 64-bit shift,
  and its result is widened only afterwards.
\<close>

definition ReadBits128 :: "bool \<Rightarrow> BitReader \<Rightarrow> uint32 \<Rightarrow> error + (uint128 \<times> BitReader)" where
  "ReadBits128 dbg r bitCount =
     (if assert_fails dbg (bitCount \<le> 128) then Inl AssertionFailed
      else if assert_fails dbg (m_position r + ucast bitCount \<le> m_sizeBits r) then Inl AssertionFailed
      else
        let fieldIndex = drop_bit 6 (m_position r) in
        bindE (field_at r fieldIndex) (\<lambda>f0.
        bindE (shr64 f0 (unat (field_shift (m_position r) bitCount))) (\<lambda>v64.
        let value0 = (ucast v64 :: uint128) in
        bindE (if bitsAvailable (m_position r) < bitCount then
                 (let bitsNeeded' = bitsNeeded (m_position r) bitCount in
                  if bitsNeeded' > 64 then
                    (let lastFieldBitsNeeded = bitsNeeded' - 64 in
                     bindE (field_at r (fieldIndex + 1)) (\<lambda>f1.
                     bindE (shl128 value0 (unat bitsNeeded')) (\<lambda>hi.
                     bindE (shl64 f1 (unat lastFieldBitsNeeded)) (\<lambda>mid.
                     bindE (field_at r (fieldIndex + 2)) (\<lambda>f2.
                     bindE (shr64 f2 (unat (64 - lastFieldBitsNeeded))) (\<lambda>lo.
                     Inr ((hi OR ucast mid) OR ucast lo)))))))
                  else
                    bindE (field_at r (fieldIndex + 1)) (\<lambda>f1.
                    bindE (shl128 value0 (unat bitsNeeded')) (\<lambda>hi.
                    bindE (shr64 f1 (unat (64 - bitsNeeded'))) (\<lambda>lo.
                    Inr (hi OR ucast lo)))))
               else Inr value0) (\<lambda>value1.
        bindE (shr128 0xFFFFFFFFFFFFFFFFFFFFFFFFFFFFFFFF (unat (128 - bitCount))) (\<lambda>m.
        Inr (value1 AND m, r\<lparr>m_position := m_position r + ucast bitCount\<rparr>))))))"

text \<open>
  The bit stream that a sequence of fields stands for, most significant bit first, and the
  \<open>n\<close> bits of it that start at bit \<open>pos\<close>, read as a number. This is what the
  specification says a read returns; it is not taken from the code.
\<close>

definition stream_value :: "uint64 list \<Rightarrow> nat" where
  "stream_value fs = foldl (\<lambda>acc f. acc * 2 ^ 64 + unat f) 0 fs"

definition stream_bits_spec :: "uint64 list \<Rightarrow> nat \<Rightarrow> nat \<Rightarrow> nat" where
  "stream_bits_spec fs pos n = (stream_value fs div 2 ^ (64 * length fs - (pos + n))) mod 2 ^ n"

text \<open>Reading the same width \<open>k\<close> times in a row, as the scenario of the spec does.\<close>

fun ReadBits64_times :: "nat \<Rightarrow> bool \<Rightarrow> BitReader \<Rightarrow> uint32 \<Rightarrow> error + BitReader" where
  "ReadBits64_times 0 dbg r bitCount = Inr r"
| "ReadBits64_times (Suc k) dbg r bitCount =
     bindE (ReadBits64 dbg r bitCount) (\<lambda>(v, r'). ReadBits64_times k dbg r' bitCount)"

section \<open>DiskBufferQueue (diskplot/DiskBufferQueue.cpp)\<close>

subsection \<open>Data model\<close>

text \<open>The tags that the constructor and \<^verbatim>\<open>OpenPlotFile\<close> pass to \<^verbatim>\<open>InitFileSet\<close>.\<close>

datatype FileId =
    Y0 | Y1 | META_A_0 | META_A_1 | META_B_0 | META_B_1 | X | F7
  | T2_L | T2_R | T3_L | T3_R | T4_L | T4_R | T5_L | T5_R | T6_L | T6_R | T7_L | T7_R
  | SORT_KEY2 | SORT_KEY3 | SORT_KEY4 | SORT_KEY5 | SORT_KEY6 | SORT_KEY7
  | MAP2 | MAP3 | MAP4 | MAP5 | MAP6 | MAP7
  | MARKED_ENTRIES_2 | MARKED_ENTRIES_3 | MARKED_ENTRIES_4 | MARKED_ENTRIES_5 | MARKED_ENTRIES_6
  | PLOT

datatype FileAccess = Read | Write | ReadWrite

text \<open>
  Modelled from the spec: \<^verbatim>\<open>FileStream\<close> (FileStream.h) is not part of the sources. The spec
  says that a stream "owns an OS file handle plus cached block size, access mode, and
  last-error code", and that a write may be short ("any short write repeats on the tail; a
  returned length < 1 is fatal"). The model of a stream keeps
  \<^item> the path it was opened with, whether it is open, its block size and access mode;
  \<^item> \<open>fs_data\<close>, the bytes that the file has received through the stream, in order;
  \<^item> \<open>fs_results\<close>, what the operating system is going to return for the next calls of
    \<^verbatim>\<open>Write\<close>: a value below 1 is a failure, a value \<open>r\<close> from 1 on means that the first
    \<open>r\<close> of the requested bytes are transferred (all of them when \<open>r\<close> exceeds the request);
    once the list is used up every write is complete.
\<close>

record FileStream =
  fs_path :: string
  fs_isOpen :: bool
  fs_blockSize :: nat
  fs_access :: FileAccess
  fs_data :: "byte list"
  fs_results :: "int list"

definition closed_stream :: FileStream where
  "closed_stream =
     \<lparr>fs_path = [], fs_isOpen = False, fs_blockSize = 0, fs_access = ReadWrite,
      fs_data = [], fs_results = []\<rparr>"

definition FileStream_Write :: "FileStream \<Rightarrow> byte list \<Rightarrow> int \<times> FileStream" where
  "FileStream_Write file bytes =
     (if \<not> fs_isOpen file then (- 1, file)
      else case fs_results file of
        [] \<Rightarrow> (int (length bytes), file\<lparr>fs_data := fs_data file @ bytes\<rparr>)
      | r # rs \<Rightarrow>
          if r < 1 then (r, file\<lparr>fs_results := rs\<rparr>)
          else (int (min (nat r) (length bytes)),
                file\<lparr>fs_data := fs_data file @ take (nat r) bytes, fs_results := rs\<rparr>))"

definition FileStream_Close :: "FileStream \<Rightarrow> FileStream" where
  "FileStream_Close file = file\<lparr>fs_isOpen := False\<rparr>"

record FileSet =
  set_name :: string
  set_files :: "FileStream list"

text \<open>
  The commands whose execution is modelled. A command stores pointers; the model stores the
  memory that the pointer designates when the command is enqueued.
\<close>

datatype Command =
    WriteBucketsCmd FileId "byte list" "uint32 list"
  | WriteFileCmd FileId nat "byte list" nat
  | DeleteFileCmd FileId nat
  | DeleteBucketCmd FileId

text \<open>
  Modelled from the spec: the command ring (\<^verbatim>\<open>_commands\<close>) is not part of the sources. The
  spec says that \<^verbatim>\<open>Write\<close> "reserves a slot" and that \<^verbatim>\<open>Commit\<close> "publishes all slots reserved
  since the last commit". The capacity of the ring, and the wait of a producer on a full
  ring for the dispatcher thread, are outside this sequential model.
\<close>

record CommandRing =
  ring_pending :: "Command list"
  ring_committed :: "Command list"

text \<open>
  The members of \<^verbatim>\<open>DiskBufferQueue\<close> that the modelled functions use (\<open>m_x\<close> is \<^verbatim>\<open>_x\<close>), and
  \<open>os_removed\<close>: the paths that have been passed to \<^verbatim>\<open>remove\<close>, oldest first.
  \<open>m_filePathBuffer\<close> is the C string that \<^verbatim>\<open>_filePathBuffer\<close> holds and \<open>m_filePathBufferSize\<close>
  the number of chars that the constructor allocated for it.
\<close>

record DiskBufferQueue =
  m_workDir :: string
  m_filePathBuffer :: string
  m_filePathBufferSize :: nat
  m_useDirectIO :: bool
  m_files :: "FileId \<Rightarrow> FileSet"
  m_blockSize :: nat
  m_blockBuffer :: "byte list option"
  m_plotHeaderbuffer :: "byte list option"
  m_plotHeaderSize :: nat
  m_plotTablesPointers :: uint64
  m_commands :: CommandRing
  os_removed :: "string list"

text \<open>
  The operating system, as far as \<^verbatim>\<open>InitFileSet\<close> and \<^verbatim>\<open>OpenPlotFile\<close> depend on it:
  \<open>openFile h path\<close> is \<open>None\<close> when \<^verbatim>\<open>FileStream::Open\<close> fails on the path and otherwise the
  block size of the device together with the results of the writes to come;
  \<open>virtualAlloc h n\<close> tells whether an allocation of \<open>n\<close> bytes succeeds.
\<close>

record Host =
  openFile :: "string \<Rightarrow> (nat \<times> int list) option"
  virtualAlloc :: "nat \<Rightarrow> bool"

text \<open>
  The constants of the plot format (\<^verbatim>\<open>kPOSMagic\<close>, \<^verbatim>\<open>kFormatDescription\<close>, \<^verbatim>\<open>_K\<close>) are
  declared in headers that are not part of the sources; they are parameters. The two
  strings are given without their terminating NUL, so that \<^verbatim>\<open>sizeof( s ) - 1\<close> is \<open>length\<close>.
\<close>

record PlotConstants =
  kPOSMagic :: "byte list"
  kFormatDescription :: "byte list"
  K :: nat

subsection \<open>Helpers that are not part of the sources\<close>

text \<open>
  Modelled from the spec: \<^verbatim>\<open>RoundUpToNextBoundaryT\<close> is declared in Util.h, which is not part
  of the sources. The spec writes it \<open>round_up(bucket_size, block_size)\<close>: the value rounded
  up to the next multiple of the boundary.
\<close>

definition RoundUpToNextBoundaryT :: "nat \<Rightarrow> nat \<Rightarrow> nat" where
  "RoundUpToNextBoundaryT v boundary = (v + boundary - 1) div boundary * boundary"

text \<open>
  Modelled from the spec: \<^verbatim>\<open>Swap16\<close> is declared in Util.h. It exchanges the two bytes of a
  16-bit value; \<open>store16_le\<close> is the store of a \<^verbatim>\<open>uint16\<close> by the little-endian host.
\<close>

definition Swap16 :: "uint16 \<Rightarrow> uint16" where
  "Swap16 x = push_bit 8 x OR drop_bit 8 x"

definition store16_le :: "uint16 \<Rightarrow> byte list" where
  "store16_le x = [ucast x, ucast (drop_bit 8 x)]"

text \<open>The conversion \<^verbatim>\<open>%u\<close> of \<^verbatim>\<open>sprintf\<close>: decimal digits, most significant first.\<close>

function dec_string :: "nat \<Rightarrow> string" where
  "dec_string n =
     (if n < 10 then [''0123456789'' ! n]
      else dec_string (n div 10) @ [''0123456789'' ! (n mod 10)])"
  by pat_completeness auto
termination
  by (relation "measure (\<lambda>n. n)") auto

text \<open>\<^verbatim>\<open>sprintf( baseName, "%s_%u.tmp", name, i )\<close> and \<^verbatim>\<open>sprintf( baseName, "%s", name )\<close>.\<close>

definition tmp_baseName :: "string \<Rightarrow> nat \<Rightarrow> string" where
  "tmp_baseName nm i = nm @ ''_'' @ dec_string i @ ''.tmp''"

text \<open>
  The path members as the constructor sets them up. It allocates
  \<^verbatim>\<open>workDirLen + PLOT_FILE_LEN\<close> chars for \<^verbatim>\<open>_filePathBuffer\<close>, where \<^verbatim>\<open>workDirLen\<close> is the length
  of its argument and \<^verbatim>\<open>PLOT_FILE_LEN\<close> the \<^verbatim>\<open>sizeof\<close> of a sample plot file name (its length
  and the terminating NUL), copies the work directory into the buffer, and appends a slash to
  the buffer and to \<^verbatim>\<open>_workDir\<close> when the directory ends neither in a slash nor in a backslash.
  \<open>DiskBufferQueue_paths workDir\<close> is \<^verbatim>\<open>_workDir\<close>, the string in \<^verbatim>\<open>_filePathBuffer\<close> and the size
  of the allocation. With an empty work directory the constructor reads
  \<^verbatim>\<open>_filePathBuffer[workDirLen-1]\<close> outside the buffer.
\<close>

definition PLOT_FILE_LEN :: nat where
  "PLOT_FILE_LEN =
     length ''/plot-k32-2021-08-05-18-55-77a011fc20f0003c3adcc739b615041ae56351a22b690fd854ccb6726e5f43b7.plot.tmp'' + 1"

definition DiskBufferQueue_paths :: "string \<Rightarrow> error + (string \<times> string \<times> nat)" where
  "DiskBufferQueue_paths workDir =
     (let workDirLen = length workDir in
      if workDirLen = 0 then Inl OutOfBounds
      else if workDir ! (workDirLen - 1) \<noteq> CHR ''/'' \<and> workDir ! (workDirLen - 1) \<noteq> CHR 0x5C
      then Inr (workDir @ ''/'', workDir @ ''/'', workDirLen + PLOT_FILE_LEN)
      else Inr (workDir, workDir, workDirLen + PLOT_FILE_LEN))"

text \<open>
  \<^verbatim>\<open>sprintf\<close> to the address \<^verbatim>\<open>_filePathBuffer + _workDir.length()\<close> keeps the first
  \<^verbatim>\<open>_workDir.length()\<close> characters of the buffer and replaces what follows by the base name
  and its terminating NUL: \<open>basePath q base\<close> is the string that the buffer holds then.
  \<open>path_fits q base\<close> tells whether the write stays inside the allocation; a \<^verbatim>\<open>sprintf\<close> that
  writes past it is an error of the model.
\<close>

definition path_fits :: "DiskBufferQueue \<Rightarrow> string \<Rightarrow> bool" where
  "path_fits q base \<longleftrightarrow> length (m_workDir q) + length base + 1 \<le> m_filePathBufferSize q"

definition basePath :: "DiskBufferQueue \<Rightarrow> string \<Rightarrow> string" where
  "basePath q base = take (length (m_workDir q)) (m_filePathBuffer q) @ base"

definition sprintf_basePath :: "DiskBufferQueue \<Rightarrow> string \<Rightarrow> error + string" where
  "sprintf_basePath q base = (if path_fits q base then Inr (basePath q base) else Inl OutOfBounds)"

subsection \<open>WriteToFile\<close>

text \<open>
  The two write loops of \<^verbatim>\<open>WriteToFile\<close> differ only in the \<^verbatim>\<open>ASSERT\<close> of the direct-I/O loop;
  \<open>chk\<close> tells whether the assertion is there and compiled in. \<open>buffer\<close> is the memory from
  the pointer \<^verbatim>\<open>buffer\<close> on and \<open>sz\<close> the parameter \<^verbatim>\<open>size\<close>.
  \<^verbatim>\<open>size -= (size_t)sizeWritten\<close> cannot wrap around here, because the
  model of \<^verbatim>\<open>Write\<close> never returns more than was requested.
\<close>

function WriteLoop :: "bool \<Rightarrow> FileStream \<Rightarrow> nat \<Rightarrow> byte list \<Rightarrow> error + (FileStream \<times> byte list)" where
  "WriteLoop chk file sz buffer =
     (if sz = 0 then Inr (file, buffer)
      else if length buffer < sz then Inl OutOfBounds
      else
        (case FileStream_Write file (take sz buffer) of
           (sizeWritten, file') \<Rightarrow>
             if sizeWritten < 1 then Inl (Fatal ''Failed to write to work file'')
             else if assert_fails chk (sizeWritten \<le> int sz) then Inl AssertionFailed
             else WriteLoop chk file' (sz - nat sizeWritten) (drop (nat sizeWritten) buffer)))"
  by pat_completeness auto
termination
  by (relation "measure (\<lambda>(chk, file, sz, buffer). sz)") auto

definition WriteToFile ::
  "bool \<Rightarrow> DiskBufferQueue \<Rightarrow> FileStream \<Rightarrow> nat \<Rightarrow> byte list \<Rightarrow> byte list option \<Rightarrow>
   error + (FileStream \<times> byte list option)" where
  "WriteToFile dbg q file sz buffer blockBuffer =
     (if \<not> m_useDirectIO q then
        bindE (WriteLoop False file sz buffer) (\<lambda>(file', buffer'). Inr (file', blockBuffer))
      else
        let blockSize = m_blockSize q in
        if blockSize = 0 then Inl DivisionByZero
        else
          let sizeToWrite = sz div blockSize * blockSize;
              remainder = sz - sizeToWrite in
          bindE (WriteLoop dbg file sizeToWrite buffer) (\<lambda>(file', buffer').
          if remainder \<noteq> 0 then
            (case blockBuffer of
               None \<Rightarrow> (if dbg then Inl AssertionFailed else Inl NullPointer)
             | Some block \<Rightarrow>
                 if length block < blockSize \<or> length buffer' < remainder then Inl OutOfBounds
                 else
                   let zeroed = replicate blockSize 0 @ drop blockSize block;
                       copied = take remainder buffer' @ drop remainder zeroed in
                   (case FileStream_Write file' (take blockSize copied) of
                      (sizeWritten, file'') \<Rightarrow>
                        if sizeWritten < 1 then Inl (Fatal ''Failed to write block to work file'')
                        else Inr (file'', Some copied)))
          else Inr (file', blockBuffer)))"


subsection \<open>CmdWriteBuckets\<close>

text \<open>
  The loop over the buckets. \<open>mem\<close> is the memory from the pointer \<^verbatim>\<open>buffers\<close> on and
  \<open>buffer\<close> the offset of the pointer \<^verbatim>\<open>buffer\<close> in it. The result carries the final offset,
  which the C++ function only holds in a local variable.
\<close>

function CmdWriteBuckets_loop ::
  "bool \<Rightarrow> DiskBufferQueue \<Rightarrow> uint32 list \<Rightarrow> byte list \<Rightarrow> nat \<Rightarrow> nat \<Rightarrow>
   FileStream list \<Rightarrow> byte list option \<Rightarrow> nat \<Rightarrow>
   error + (FileStream list \<times> byte list option \<times> nat)" where
  "CmdWriteBuckets_loop dbg q sizes mem bucketCount i streams blockBuffer buffer =
     (if i < bucketCount then
        (if length sizes \<le> i \<or> length streams \<le> i then Inl OutOfBounds
         else if m_useDirectIO q \<and> m_blockSize q = 0 then Inl DivisionByZero
         else
           (let bufferSize = unat (sizes ! i);
                blockSize = m_blockSize q;
                writeSize = (if \<not> m_useDirectIO q then bufferSize
                             else bufferSize div blockSize * blockSize) in
            case WriteToFile dbg q (streams ! i) writeSize (drop buffer mem) blockBuffer of
              Inl e \<Rightarrow> Inl e
            | Inr (file', block') \<Rightarrow>
                if assert_fails dbg (fs_access file' = ReadWrite) then Inl AssertionFailed
                else
                  (let bufferOffset = (if \<not> m_useDirectIO q then bufferSize
                                       else RoundUpToNextBoundaryT bufferSize blockSize) in
                   CmdWriteBuckets_loop dbg q sizes mem bucketCount (i + 1)
                     (streams[i := file']) block' (buffer + bufferOffset))))
      else Inr (streams, blockBuffer, buffer))"
  by pat_completeness auto
termination
  by (relation "measure (\<lambda>(dbg, q, sizes, mem, bucketCount, i, streams, blockBuffer, buffer). bucketCount - i)")
    auto

definition CmdWriteBuckets ::
  "bool \<Rightarrow> DiskBufferQueue \<Rightarrow> FileId \<Rightarrow> byte list \<Rightarrow> uint32 list \<Rightarrow> error + (DiskBufferQueue \<times> nat)" where
  "CmdWriteBuckets dbg q fileId buffers sizes =
     (let fileBuckets = m_files q fileId in
      if dbg \<and> set_files fileBuckets = [] then Inl OutOfBounds
      else if assert_fails dbg (fs_access (set_files fileBuckets ! 0) = ReadWrite) then Inl AssertionFailed
      else
        (let bucketCount = length (set_files fileBuckets) in
         bindE (CmdWriteBuckets_loop dbg q sizes buffers bucketCount 0 (set_files fileBuckets)
                  (m_blockBuffer q) 0)
           (\<lambda>(streams', block', buffer').
              Inr (q\<lparr>m_files := (m_files q) (fileId := fileBuckets\<lparr>set_files := streams'\<rparr>),
                     m_blockBuffer := block'\<rparr>, buffer'))))"

subsection \<open>InitFileSet\<close>

text \<open>
  The body of the loop over the buckets of \<^verbatim>\<open>InitFileSet\<close>, for the bucket \<open>i\<close>. A file is
  opened with \<^verbatim>\<open>FileMode::Create\<close>, so it starts empty (the debug options that reopen existing
  files are not modelled). The result is \<open>Inl\<close> for a call of \<^verbatim>\<open>Fatal\<close>, \<open>Inr (False, q)\<close> for
  \<^verbatim>\<open>return false\<close>, and \<open>Inr (True, q)\<close> when the loop goes on.
\<close>

definition InitFileSet_body ::
  "Host \<Rightarrow> FileId \<Rightarrow> string \<Rightarrow> nat \<Rightarrow> DiskBufferQueue \<Rightarrow> error + (bool \<times> DiskBufferQueue)" where
  "InitFileSet_body h fileId nm i q =
     bindE (sprintf_basePath q (if fileId \<noteq> PLOT then tmp_baseName nm i else nm)) (\<lambda>pathBuffer.
      let q1 = q\<lparr>m_filePathBuffer := pathBuffer\<rparr> in
      case openFile h pathBuffer of
        None \<Rightarrow>
          if fileId = PLOT then Inr (False, q1)
          else Inl (Fatal ''Failed to open temp work file'')
      | Some (deviceBlockSize, results) \<Rightarrow>
          (let file = \<lparr>fs_path = pathBuffer, fs_isOpen = True, fs_blockSize = deviceBlockSize,
                       fs_access = ReadWrite, fs_data = [], fs_results = results\<rparr>;
               fileSet = m_files q1 fileId;
               q2 = q1\<lparr>m_files := (m_files q1)
                       (fileId := fileSet\<lparr>set_files := (set_files fileSet)[i := file]\<rparr>)\<rparr> in
           case m_blockBuffer q2 of
             None \<Rightarrow>
               if fs_blockSize file < 2 then Inl (Fatal ''Invalid temporary file block size.'')
               else if \<not> virtualAlloc h (fs_blockSize file) then Inl (Fatal ''Out of memory.'')
               else Inr (True, q2\<lparr>m_blockSize := fs_blockSize file,
                                  m_blockBuffer := Some (replicate (fs_blockSize file) 0)\<rparr>)
           | Some block \<Rightarrow>
               if fileId \<noteq> PLOT then
                 (if fs_blockSize file \<noteq> m_blockSize q2
                  then Inl (Fatal ''Temporary work files have differing block sizes.'')
                  else Inr (True, q2))
               else Inr (True, q2)))"

function InitFileSet_loop ::
  "Host \<Rightarrow> FileId \<Rightarrow> string \<Rightarrow> nat \<Rightarrow> nat \<Rightarrow> DiskBufferQueue \<Rightarrow> error + (bool \<times> DiskBufferQueue)" where
  "InitFileSet_loop h fileId nm bucketCount i q =
     (if i < bucketCount then
        (case InitFileSet_body h fileId nm i q of
           Inl e \<Rightarrow> Inl e
         | Inr (goOn, q') \<Rightarrow>
             if goOn then InitFileSet_loop h fileId nm bucketCount (i + 1) q'
             else Inr (False, q'))
      else Inr (True, q))"
  by pat_completeness auto
termination
  by (relation "measure (\<lambda>(h, fileId, nm, bucketCount, i, q). bucketCount - i)") auto

definition InitFileSet ::
  "Host \<Rightarrow> DiskBufferQueue \<Rightarrow> FileId \<Rightarrow> string \<Rightarrow> nat \<Rightarrow> error + (bool \<times> DiskBufferQueue)" where
  "InitFileSet h q fileId nm bucketCount =
     InitFileSet_loop h fileId nm bucketCount 0
       (q\<lparr>m_files := (m_files q)
            (fileId := \<lparr>set_name = nm, set_files = replicate bucketCount closed_stream\<rparr>)\<rparr>)"

subsection \<open>CmdDeleteFile and CmdDeleteBucket\<close>

text \<open>
  Both functions close a stream, print its path into \<^verbatim>\<open>_filePathBuffer\<close> and pass the buffer
  to \<^verbatim>\<open>remove\<close>, whose result is only logged. \<open>delete_stream\<close> is that common body.
\<close>

definition delete_stream :: "DiskBufferQueue \<Rightarrow> FileId \<Rightarrow> nat \<Rightarrow> error + DiskBufferQueue" where
  "delete_stream q fileId bucket =
     (let fileBuckets = m_files q fileId in
      if length (set_files fileBuckets) \<le> bucket then Inl OutOfBounds
      else
        (let file = FileStream_Close (set_files fileBuckets ! bucket) in
         bindE (sprintf_basePath q (tmp_baseName (set_name fileBuckets) bucket)) (\<lambda>path.
         Inr (q\<lparr>m_files := (m_files q)
                  (fileId := fileBuckets\<lparr>set_files := (set_files fileBuckets)[bucket := file]\<rparr>),
                m_filePathBuffer := path,
                os_removed := os_removed q @ [path]\<rparr>))))"

definition CmdDeleteFile :: "DiskBufferQueue \<Rightarrow> FileId \<Rightarrow> nat \<Rightarrow> error + DiskBufferQueue" where
  "CmdDeleteFile q fileId bucket = delete_stream q fileId bucket"

function CmdDeleteBucket_loop :: "FileId \<Rightarrow> nat \<Rightarrow> DiskBufferQueue \<Rightarrow> error + DiskBufferQueue" where
  "CmdDeleteBucket_loop fileId i q =
     (if i < length (set_files (m_files q fileId)) then
        (case delete_stream q fileId i of
           Inl e \<Rightarrow> Inl e
         | Inr q' \<Rightarrow> CmdDeleteBucket_loop fileId (i + 1) q')
      else Inr q)"
  by pat_completeness auto
termination
  by (relation "measure (\<lambda>(fileId, i, q). length (set_files (m_files q fileId)) - i)")
    (auto simp add: delete_stream_def sprintf_basePath_def bindE_def Let_def split: if_splits)

definition CmdDeleteBucket :: "DiskBufferQueue \<Rightarrow> FileId \<Rightarrow> error + DiskBufferQueue" where
  "CmdDeleteBucket q fileId = CmdDeleteBucket_loop fileId 0 q"

subsection \<open>The producer side: WriteFile, CommitCommands, OpenPlotFile\<close>

definition GetCommandObject :: "DiskBufferQueue \<Rightarrow> Command \<Rightarrow> DiskBufferQueue" where
  "GetCommandObject q cmd =
     q\<lparr>m_commands := (m_commands q)\<lparr>ring_pending := ring_pending (m_commands q) @ [cmd]\<rparr>\<rparr>"

definition WriteFile :: "DiskBufferQueue \<Rightarrow> FileId \<Rightarrow> nat \<Rightarrow> byte list \<Rightarrow> nat \<Rightarrow> DiskBufferQueue" where
  "WriteFile q fileId bucket buffer sz = GetCommandObject q (WriteFileCmd fileId bucket buffer sz)"

definition CommitCommands :: "DiskBufferQueue \<Rightarrow> DiskBufferQueue" where
  "CommitCommands q =
     q\<lparr>m_commands :=
         \<lparr>ring_pending = [],
          ring_committed = ring_committed (m_commands q) @ ring_pending (m_commands q)\<rparr>\<rparr>"

text \<open>
  \<open>put bytes (header, headerWriter)\<close> stores \<open>bytes\<close> at the offset \<open>headerWriter\<close> of the header
  buffer and advances the offset, as each \<^verbatim>\<open>memcpy\<close> or store of \<^verbatim>\<open>OpenPlotFile\<close> followed by
  \<^verbatim>\<open>headerWriter += n\<close> does. A store beyond the end of the buffer is an error of the model.
\<close>

definition put :: "byte list \<Rightarrow> byte list \<times> nat \<Rightarrow> error + (byte list \<times> nat)" where
  "put bytes s =
     (case s of (header, headerWriter) \<Rightarrow>
        if headerWriter + length bytes \<le> length header
        then Inr (take headerWriter header @ bytes @ drop (headerWriter + length bytes) header,
                  headerWriter + length bytes)
        else Inl OutOfBounds)"

text \<open>
  \<^verbatim>\<open>OpenPlotFile\<close>. The header buffer is allocated only when there is none yet
  (\<^verbatim>\<open>if( !_plotHeaderbuffer )\<close>); the function never clears it.

  Modelled from the spec: \<^verbatim>\<open>bbvirtalloc\<close> is declared in Util.h, which is not part of the
  sources. The spec calls the table-pointer region of the header "zero-initialized": a fresh
  allocation is a region of zero bytes; a failed allocation is taken to be fatal.

  The assertions on the pointer arguments have no counterpart in the model, where the
  arguments are the memory itself; \<open>plotId\<close> and \<open>plotMemo\<close> are the memory from the two
  pointers on.
\<close>

definition OpenPlotFile ::
  "bool \<Rightarrow> Host \<Rightarrow> PlotConstants \<Rightarrow> DiskBufferQueue \<Rightarrow> string \<Rightarrow> byte list \<Rightarrow> byte list \<Rightarrow> uint16 \<Rightarrow>
   error + DiskBufferQueue" where
  "OpenPlotFile dbg h c q fileName plotId plotMemo plotMemoSize =
     (if assert_fails dbg (plotMemoSize \<noteq> 0) then Inl AssertionFailed
      else
        bindE (InitFileSet h q PLOT fileName 1) (\<lambda>(didOpen, q1).
        if \<not> didOpen then Inl (Fatal ''Failed to open plot file.'')
        else
          let headerSize = length (kPOSMagic c) + 32 + 1 + 2 + length (kFormatDescription c) + 2 +
                           unat plotMemoSize + 80;
              q2 = q1\<lparr>m_plotHeaderSize := headerSize\<rparr> in
          bindE (case m_plotHeaderbuffer q2 of
                   None \<Rightarrow> if virtualAlloc h headerSize then Inr (replicate headerSize 0)
                            else Inl (Fatal ''VirtualAlloc failed.'')
                 | Some b \<Rightarrow> Inr b) (\<lambda>header.
          if length plotId < 32 \<or> length plotMemo < unat plotMemoSize then Inl OutOfBounds
          else
            bindE (put (kPOSMagic c) (header, 0)) (\<lambda>s1.
            bindE (put (take 32 plotId) s1) (\<lambda>s2.
            bindE (put [of_nat (K c)] s2) (\<lambda>s3.
            bindE (put (store16_le (Swap16 (of_nat (length (kFormatDescription c))))) s3) (\<lambda>s4.
            bindE (put (kFormatDescription c) s4) (\<lambda>s5.
            bindE (put (store16_le (Swap16 plotMemoSize)) s5) (\<lambda>s6.
            bindE (put (take (unat plotMemoSize) plotMemo) s6) (\<lambda>(header', headerWriter).
            let q3 = q2\<lparr>m_plotHeaderbuffer := Some header',
                         m_plotTablesPointers := of_nat headerWriter\<rparr> in
            Inr (CommitCommands (WriteFile q3 PLOT 0 header' headerSize))))))))))))"

text \<open>The layout of the header that the spec gives, for comparison with the code.\<close>

definition be16_spec :: "nat \<Rightarrow> byte list" where
  "be16_spec n = [of_nat (n div 256), of_nat (n mod 256)]"

definition plot_header_spec :: "PlotConstants \<Rightarrow> byte list \<Rightarrow> byte list \<Rightarrow> nat \<Rightarrow> byte list \<Rightarrow> byte list" where
  "plot_header_spec c plotId memo memoSize tablePointers =
     kPOSMagic c @ take 32 plotId @ [of_nat (K c)] @
     be16_spec (length (kFormatDescription c)) @ kFormatDescription c @
     be16_spec memoSize @ take memoSize memo @ tablePointers"

subsection \<open>Conditions on the environment and the scenario of the spec\<close>

text \<open>
  A stream is usable when it is open for reading and writing and no write to come fails.
\<close>

definition stream_ok :: "FileStream \<Rightarrow> bool" where
  "stream_ok f \<longleftrightarrow> fs_isOpen f \<and> fs_access f = ReadWrite \<and> (\<forall>r\<in>set (fs_results f). 1 \<le> r)"

text \<open>
  The two sizes that the loop of \<^verbatim>\<open>CmdWriteBuckets\<close> computes for a bucket of size \<open>s\<close>: the
  size of the write and the advance of the input pointer.
\<close>

definition bucket_writeSize :: "DiskBufferQueue \<Rightarrow> nat \<Rightarrow> nat" where
  "bucket_writeSize q s =
     (if \<not> m_useDirectIO q then s else s div m_blockSize q * m_blockSize q)"

definition bucket_stride :: "DiskBufferQueue \<Rightarrow> nat \<Rightarrow> nat" where
  "bucket_stride q s =
     (if \<not> m_useDirectIO q then s else RoundUpToNextBoundaryT s (m_blockSize q))"

text \<open>
  The bucket scenario of the spec: four streams of the set \<open>Y0\<close>, freshly opened, a block
  size of 4096 and direct I/O; \<open>scenario_streams ds\<close> are the four streams holding the data
  \<open>ds\<close>. The work directory is \<open>/tmp/\<close>, for which the constructor allocates a path buffer of
  106 chars. \<open>scenario_host b\<close> is an operating system on which every file can be opened, on a
  device of block size \<open>b\<close>, and every allocation succeeds.
\<close>

definition scenario_streams :: "byte list list \<Rightarrow> FileStream list" where
  "scenario_streams ds =
     map (\<lambda>(i, d). \<lparr>fs_path = ''/tmp/'' @ tmp_baseName ''y0'' i, fs_isOpen = True, fs_blockSize = 4096,
                     fs_access = ReadWrite, fs_data = d, fs_results = []\<rparr>)
       (zip [0..<4] ds)"

definition scenario_queue :: "byte list list \<Rightarrow> DiskBufferQueue" where
  "scenario_queue ds =
     \<lparr>m_workDir = ''/tmp/'', m_filePathBuffer = ''/tmp/y0_3.tmp'', m_filePathBufferSize = 106,
      m_useDirectIO = True,
      m_files = (\<lambda>fileId. if fileId = Y0 then \<lparr>set_name = ''y0'', set_files = scenario_streams ds\<rparr>
                          else \<lparr>set_name = [], set_files = []\<rparr>),
      m_blockSize = 4096, m_blockBuffer = Some (replicate 4096 0),
      m_plotHeaderbuffer = None, m_plotHeaderSize = 0, m_plotTablesPointers = 0,
      m_commands = \<lparr>ring_pending = [], ring_committed = []\<rparr>, os_removed = []\<rparr>"

definition scenario_host :: "nat \<Rightarrow> Host" where
  "scenario_host deviceBlockSize =
     \<lparr>openFile = (\<lambda>path. Some (deviceBlockSize, [])), virtualAlloc = (\<lambda>n. True)\<rparr>"

definition scenario_memory :: "byte list" where
  "scenario_memory = replicate 20480 0x5A"

text \<open>
  The scenario queue after a set of one file has been opened: \<open>scenario_stream\<close> is the stream
  of a file just opened at a path on a device with the given block size and the given
  results of the writes to come, \<open>scenario_queue_with fileId nm file\<close> the queue with \<open>file\<close> as
  the only stream of the set \<open>fileId\<close>. \<open>written_data r fileId bucket\<close> is what the file of a
  bucket has received once a command has returned.
\<close>

definition scenario_stream :: "string \<Rightarrow> nat \<Rightarrow> int list \<Rightarrow> FileStream" where
  "scenario_stream path deviceBlockSize results =
     \<lparr>fs_path = path, fs_isOpen = True, fs_blockSize = deviceBlockSize, fs_access = ReadWrite,
      fs_data = [], fs_results = results\<rparr>"

definition scenario_queue_with :: "FileId \<Rightarrow> string \<Rightarrow> FileStream \<Rightarrow> DiskBufferQueue" where
  "scenario_queue_with fileId nm file =
     (scenario_queue [[], [], [], []])
       \<lparr>m_filePathBuffer := fs_path file,
        m_files := (m_files (scenario_queue [[], [], [], []]))
          (fileId := \<lparr>set_name = nm, set_files = [file]\<rparr>)\<rparr>"


text \<open>The plot file name that the constructor takes as its sample, without the slash.\<close>

definition scenario_plot_name :: string where
  "scenario_plot_name =
     ''plot-k32-2021-08-05-18-55-77a011fc20f0003c3adcc739b615041ae56351a22b690fd854ccb6726e5f43b7.plot.tmp''"

text \<open>
  What a reader of the header finds: the first \<^verbatim>\<open>_plotHeaderSize\<close> bytes of the header buffer
  of the queue that a call of \<^verbatim>\<open>OpenPlotFile\<close> returns.
\<close>

definition header_written :: "error + DiskBufferQueue \<Rightarrow> byte list option" where
  "header_written r =
     (case r of
        Inl e \<Rightarrow> None
      | Inr q \<Rightarrow> map_option (take (m_plotHeaderSize q)) (m_plotHeaderbuffer q))"

text \<open>
  The header scenario of the spec: an instance of the constants of the plot format (the
  magic \<open>Proof of Space Plot\<close>, the format description \<open>v1.0\<close>, \<open>k = 32\<close>) and the plot id
  \<open>0x00..1F\<close>.
\<close>

definition scenario_constants :: PlotConstants where
  "scenario_constants =
     \<lparr>kPOSMagic = [0x50, 0x72, 0x6F, 0x6F, 0x66, 0x20, 0x6F, 0x66, 0x20, 0x53, 0x70, 0x61, 0x63,
                   0x65, 0x20, 0x50, 0x6C, 0x6F, 0x74],
      kFormatDescription = [0x76, 0x31, 0x2E, 0x30],
      K = 32\<rparr>"

definition scenario_plotId :: "byte list" where
  "scenario_plotId =
     [0x00, 0x01, 0x02, 0x03, 0x04, 0x05, 0x06, 0x07, 0x08, 0x09, 0x0A, 0x0B, 0x0C, 0x0D, 0x0E, 0x0F,
      0x10, 0x11, 0x12, 0x13, 0x14, 0x15, 0x16, 0x17, 0x18, 0x19, 0x1A, 0x1B, 0x1C, 0x1D, 0x1E, 0x1F]"

text \<open>
  Two plots on one queue: the first with a memo of four bytes, the second, on the queue that
  the first call returns, with the memo \<open>0xAABB\<close> of the spec. Then the same two plots in the
  other order.
\<close>

definition scenario_first_plot :: "error + DiskBufferQueue" where
  "scenario_first_plot =
     OpenPlotFile False (scenario_host 4096) scenario_constants (scenario_queue [[], [], [], []])
       ''p.tmp'' scenario_plotId [0xAA, 0xBB, 0xCC, 0xDD] 4"

definition scenario_second_plot :: "error + DiskBufferQueue" where
  "scenario_second_plot =
     bindE scenario_first_plot (\<lambda>q.
       OpenPlotFile False (scenario_host 4096) scenario_constants q ''p.tmp'' scenario_plotId
         [0xAA, 0xBB] 2)"

definition scenario_small_plot :: "error + DiskBufferQueue" where
  "scenario_small_plot =
     OpenPlotFile False (scenario_host 4096) scenario_constants (scenario_queue [[], [], [], []])
       ''p.tmp'' scenario_plotId [0xAA, 0xBB] 2"

definition scenario_large_after_small :: "error + DiskBufferQueue" where
  "scenario_large_after_small =
     bindE scenario_small_plot (\<lambda>q.
       OpenPlotFile False (scenario_host 4096) scenario_constants q ''p.tmp'' scenario_plotId
         [0xAA, 0xBB, 0xCC, 0xDD] 4)"

section \<open>Properties of the BitReader\<close>

subsection \<open>Byte order\<close>

lemma bit_Swap64:
  "bit (Swap64 x) n \<longleftrightarrow> n < 64 \<and> bit x (8 * (7 - n div 8) + n mod 8)"
proof -
  consider "n < 8" | "8 \<le> n" "n < 16" | "16 \<le> n" "n < 24" | "24 \<le> n" "n < 32"
    | "32 \<le> n" "n < 40" | "40 \<le> n" "n < 48" | "48 \<le> n" "n < 56" | "56 \<le> n" "n < 64" | "64 \<le> n"
    by linarith
  then show ?thesis
  proof cases
    case 1
    then have "n div 8 = 0" "n mod 8 = n" by simp_all
    with 1 show ?thesis unfolding Swap64_def by (simp add: bit_simps)
  next
    case 2
    then have d: "n div 8 = 1" by (intro div_nat_eqI) simp_all
    have m: "n mod 8 = n - 8" by (simp add: modulo_nat_def d)
    from d m 2 show ?thesis unfolding Swap64_def by (auto simp add: bit_simps)
  next
    case 3
    then have d: "n div 8 = 2" by (intro div_nat_eqI) simp_all
    have m: "n mod 8 = n - 16" by (simp add: modulo_nat_def d)
    from d m 3 show ?thesis unfolding Swap64_def by (auto simp add: bit_simps)
  next
    case 4
    then have d: "n div 8 = 3" by (intro div_nat_eqI) simp_all
    have m: "n mod 8 = n - 24" by (simp add: modulo_nat_def d)
    from d m 4 show ?thesis unfolding Swap64_def by (auto simp add: bit_simps)
  next
    case 5
    then have d: "n div 8 = 4" by (intro div_nat_eqI) simp_all
    have m: "n mod 8 = n - 32" by (simp add: modulo_nat_def d)
    from d m 5 show ?thesis unfolding Swap64_def by (auto simp add: bit_simps)
  next
    case 6
    then have d: "n div 8 = 5" by (intro div_nat_eqI) simp_all
    have m: "n mod 8 = n - 40" by (simp add: modulo_nat_def d)
    from d m 6 show ?thesis unfolding Swap64_def by (auto simp add: bit_simps)
  next
    case 7
    then have d: "n div 8 = 6" by (intro div_nat_eqI) simp_all
    have m: "n mod 8 = n - 48" by (simp add: modulo_nat_def d)
    from d m 7 show ?thesis unfolding Swap64_def by (auto simp add: bit_simps)
  next
    case 8
    then have d: "n div 8 = 7" by (intro div_nat_eqI) simp_all
    have m: "n mod 8 = n - 56" by (simp add: modulo_nat_def d)
    from d m 8 show ?thesis unfolding Swap64_def by (auto simp add: bit_simps)
  next
    case 9
    then show ?thesis unfolding Swap64_def by (auto simp add: bit_simps dest: bit_imp_le_length)
  qed
qed

lemma swap_index: 
  assumes n: "n < (64::nat)"
  shows "8 * (7 - n div 8) + n mod 8 < 64"
    and "8 * (7 - (8 * (7 - n div 8) + n mod 8) div 8) + (8 * (7 - n div 8) + n mod 8) mod 8 = n"
proof -
  define q where "q = n div 8"
  define m where "m = n mod 8"
  have nqm: "n = 8 * q + m" by (simp add: q_def m_def)
  have m: "m < 8" by (simp add: m_def)
  have q: "q \<le> 7" using n nqm by linarith
  show "8 * (7 - n div 8) + n mod 8 < 64" 
    using q m unfolding q_def [symmetric] m_def [symmetric] by linarith
  have d: "(8 * (7 - q) + m) div 8 = 7 - q" using m by simp
  have r: "(8 * (7 - q) + m) mod 8 = m" using m by simp
  have "8 * (7 - (7 - q)) + m = n" using q nqm by simp
  then show "8 * (7 - (8 * (7 - n div 8) + n mod 8) div 8) + (8 * (7 - n div 8) + n mod 8) mod 8 = n"
    unfolding q_def [symmetric] m_def [symmetric] by (simp only: d r)
qed

lemma Swap64_Swap64: "Swap64 (Swap64 x) = x"
proof (rule bit_eqI)
  fix n
  assume "possible_bit TYPE(uint64) n"
  then have n: "n < 64" by (simp add: possible_bit_def)
  show "bit (Swap64 (Swap64 x)) n = bit x n"
    by (simp only: bit_Swap64 swap_index [OF n] n simp_thms)
qed

lemma load64_le_flat: "load64_le [b0, b1, b2, b3, b4, b5, b6, b7] =
     ucast b0 OR push_bit 8 (ucast b1) OR push_bit 16 (ucast b2) OR push_bit 24 (ucast b3) OR
     push_bit 32 (ucast b4) OR push_bit 40 (ucast b5) OR push_bit 48 (ucast b6) OR push_bit 56 (ucast b7)"
  by (simp add: load64_le_def push_bit_or flip: push_bit_add)

lemma ucast_byte: "(ucast (ucast (w :: uint64) :: byte) :: uint64) = take_bit 8 w"
  by (rule bit_eqI) (auto simp add: bit_simps)

lemma load_store_Swap64: "load64_le (store64_be f) = Swap64 f"
  by (simp add: store64_be_def upt_rec load64_le_flat ucast_byte Swap64_def or.commute or.left_commute)

lemma Swap64_load_store: "Swap64 (load64_le (store64_be f)) = f"
  by (simp add: load_store_Swap64 Swap64_Swap64)

subsection \<open>The constructor\<close>

lemma swap_fields_gen:
  "i \<le> n \<Longrightarrow> n \<le> length buf \<Longrightarrow>
   swap_fields i n buf = Inr (take i buf @ map Swap64 (take (n - i) (drop i buf)) @ drop n buf)"
proof (induction i n buf rule: swap_fields.induct)
  case (1 i fieldCount bytesBE)
  show ?case
  proof (cases "i < fieldCount")
    case True
    then have il: "i < length bytesBE" using "1.prems" by simp
    have ih: "swap_fields (Suc i) fieldCount (bytesBE[i := Swap64 (bytesBE ! i)]) =
        Inr (take (Suc i) (bytesBE[i := Swap64 (bytesBE ! i)]) @
             map Swap64 (take (fieldCount - Suc i) (drop (Suc i) (bytesBE[i := Swap64 (bytesBE ! i)]))) @
             drop fieldCount (bytesBE[i := Swap64 (bytesBE ! i)]))"
      using "1.IH" [OF True il] True "1.prems" by simp
    have t: "take (Suc i) (bytesBE[i := Swap64 (bytesBE ! i)]) = take i bytesBE @ [Swap64 (bytesBE ! i)]"
      using il by (simp add: take_Suc_conv_app_nth)
    have d: "take (fieldCount - i) (drop i bytesBE) = bytesBE ! i # take (fieldCount - Suc i) (drop (Suc i) bytesBE)"
    proof -
      have "fieldCount - i = Suc (fieldCount - Suc i)" using True by simp
      then show ?thesis using il by (simp flip: Cons_nth_drop_Suc)
    qed
    show ?thesis
      using True il by (subst swap_fields.simps) (simp add: ih t d del: swap_fields.simps)
  next
    case False
    then show ?thesis using "1.prems" by simp
  qed
qed

lemma swap_fields_0:
  "n \<le> length buf \<Longrightarrow> swap_fields 0 n buf = Inr (map Swap64 (take n buf) @ drop n buf)"
  using swap_fields_gen [of 0 n buf] by simp

lemma BitReader_init_aligned:
  assumes "k \<le> length buf" "k < 2 ^ 57"
  shows "BitReader_init dbg buf (of_nat (64 * k)) =
     Inr \<lparr>m_fields = map Swap64 (take k buf) @ drop k buf, m_position = 0, m_sizeBits = of_nat (64 * k)\<rparr>"
proof -
  let ?s = "of_nat (64 * k) :: uint64"
  have "64 * k < 2 ^ 64" using assms(2) by simp
  then have u: "unat ?s = 64 * k" by (simp only: unat_of_nat len_of_numeral_defs) simp
  have dv: "unat (?s div 64) = k" using u by (simp add: unat_div)
  have m: "?s div 64 * 64 = ?s"
    by (rule word_unat_eq_iff [THEN iffD2]) (use u assms(2) in \<open>simp add: unat_word_ariths unat_div\<close>)
  have le: "?s \<le> 0x7FFFFFFFFFFFFFFF" using u assms(2) by (simp add: word_le_nat_alt)
  show ?thesis
    unfolding BitReader_init_def Let_def 
    by (simp add: assert_fails_def m le dv swap_fields_0 assms bindE_def del: swap_fields.simps of_nat_mult)
qed

subsection \<open>Shift amounts\<close>

lemma bitsAvailable_word: "((drop_bit 6 pos + 1) * 64) - pos = 64 - pos mod (64::uint64)"
proof -
  have d: "drop_bit 6 pos = pos div 64" by (simp add: drop_bit_eq_div)
  have "(pos div 64 + 1) * 64 - pos = (pos div 64 + 1) * 64 - (pos div 64 * 64 + pos mod 64)"
    by (simp only: div_mult_mod_eq)
  also have "\<dots> = 64 - pos mod 64" by (simp add: algebra_simps)
  finally show ?thesis by (simp only: d)
qed

lemma unat_bitsAvailable: "unat (bitsAvailable pos) = 64 - unat pos mod 64"
proof -
  have m: "unat (pos mod 64) = unat pos mod 64" by (simp add: unat_mod)
  have lt: "unat pos mod 64 < 64" by simp
  have s: "unat (64 - pos mod 64) = 64 - unat pos mod 64"
    using lt m by (simp add: unat_sub word_le_nat_alt)
  have "unat (ucast (64 - pos mod 64) :: uint32) = unat (64 - pos mod 64)"
    using s lt by (simp add: unsigned_ucast_eq take_bit_nat_eq_self)
  with s show ?thesis by (simp only: bitsAvailable_def bitsAvailable_word)
qed

lemma bitsAvailable_range: "1 \<le> unat (bitsAvailable pos)" "unat (bitsAvailable pos) \<le> 64"
  by (simp_all add: unat_bitsAvailable Suc_le_eq)

lemma unat_field_shift:
  "unat (field_shift pos bitCount) = max (unat bitCount) (unat (bitsAvailable pos)) - unat bitCount"
  by (simp add: field_shift_def unat_sub max_def word_le_nat_alt)

lemma unat_bitsNeeded:
  "bitsAvailable pos < bitCount \<Longrightarrow> unat (bitsNeeded pos bitCount) = unat bitCount - unat (bitsAvailable pos)"
  by (simp add: bitsNeeded_def unat_sub word_less_nat_alt word_le_nat_alt)

lemma unat_mask_shift: "bitCount \<le> 64 \<Longrightarrow> unat (mask_shift bitCount) = 64 - unat bitCount"
  by (simp add: mask_shift_def unat_sub word_le_nat_alt)

lemma unat_cross_shift:
  assumes "bitsAvailable pos < bitCount" "bitCount \<le> 64"
  shows "unat (cross_shift pos bitCount) = 64 - (unat bitCount - unat (bitsAvailable pos))"
proof -
  have "unat (bitsNeeded pos bitCount) \<le> 64"
    using assms by (simp add: unat_bitsNeeded word_le_nat_alt)
  then have "bitsNeeded pos bitCount \<le> 64" by (simp add: word_le_nat_alt)
  then show ?thesis using assms by (simp add: cross_shift_def unat_sub unat_bitsNeeded)
qed

lemma shift_bounds:
  assumes "1 \<le> bitCount" "bitCount \<le> 64"
  shows "unat (field_shift pos bitCount) < 64"
    and "unat (mask_shift bitCount) < 64"
    and "bitsAvailable pos < bitCount \<Longrightarrow> unat (bitsNeeded pos bitCount) < 64"
    and "bitsAvailable pos < bitCount \<Longrightarrow> unat (cross_shift pos bitCount) < 64"
proof -
  have b: "1 \<le> unat bitCount" "unat bitCount \<le> 64"
    using assms by (simp_all add: word_le_nat_alt)
  note a = bitsAvailable_range [of pos]
  show "unat (field_shift pos bitCount) < 64"
    using a b unfolding unat_field_shift by arith
  show "unat (mask_shift bitCount) < 64"
    using b assms by (simp add: unat_mask_shift)
  show "unat (bitsNeeded pos bitCount) < 64" if "bitsAvailable pos < bitCount"
    using that a b by (simp add: unat_bitsNeeded)
  show "unat (cross_shift pos bitCount) < 64" if "bitsAvailable pos < bitCount"
    using that a b assms by (simp add: unat_cross_shift word_less_nat_alt)
qed

lemma ReadBits64_no_shift_error:
  assumes "1 \<le> bitCount" "bitCount \<le> 64"
  shows "ReadBits64 dbg r bitCount \<noteq> Inl ShiftOutOfRange"
  by (auto simp add: ReadBits64_def bindE_def shr64_def shl64_def field_at_def Let_def
      shift_bounds [OF assms] split: sum.splits if_splits)

lemma ReadBits64_zero:
  assumes "field_at r (drop_bit 6 (m_position r)) = Inr f" "m_position r \<le> m_sizeBits r"
  shows "ReadBits64 dbg r 0 = Inl ShiftOutOfRange"
  using assms
  by (auto simp add: ReadBits64_def bindE_def shr64_def shl64_def Let_def assert_fails_def mask_shift_def
      split: sum.splits if_splits)

lemma ReadBits64_position:
  "ReadBits64 dbg r n = Inr (v, r') \<Longrightarrow> r' = r\<lparr>m_position := m_position r + ucast n\<rparr>"
  by (auto simp add: ReadBits64_def bindE_def Let_def split: sum.splits if_splits)

subsection \<open>Reads that return\<close>

lemma unat_u64_bound: "unat (w :: uint64) < 2 ^ 64"
  using unsigned_less [of w, where ?'a = nat] by simp

lemma unat_u32_bound: "unat (w :: uint32) < 2 ^ 32"
  using unsigned_less [of w, where ?'a = nat] by simp

lemma unat_ucast_32_64: "unat (ucast (n :: uint32) :: uint64) = unat n"
  using unat_u32_bound [of n] by (simp add: unsigned_ucast_eq take_bit_nat_eq_self)

lemma ReadBits64_returns:
  assumes n: "1 \<le> n" "n \<le> 64"
    and p: "unat (m_position r) + unat n \<le> unat (m_sizeBits r)"
    and s: "unat (m_sizeBits r) \<le> 64 * length (m_fields r)"
  shows "\<exists>v. ReadBits64 dbg r n = Inr (v, r\<lparr>m_position := m_position r + ucast n\<rparr>)"
proof -
  let ?pos = "m_position r"
  have b: "1 \<le> unat n" "unat n \<le> 64" using n by (simp_all add: word_le_nat_alt)
  have "unat ?pos + unat n < 2 ^ 64" using p unat_u64_bound [of "m_sizeBits r"] by simp
  then have "unat (?pos + ucast n) = unat ?pos + unat n"
    by (simp add: unat_word_ariths unat_ucast_32_64)
  then have a2: "?pos + ucast n \<le> m_sizeBits r" using p by (simp add: word_le_nat_alt)
  have d: "unat (drop_bit 6 ?pos) = unat ?pos div 64"
    by (simp add: drop_bit_eq_div unat_div)
  have i0: "unat ?pos div 64 < length (m_fields r)" using p s b by simp
  have f0: "field_at r (drop_bit 6 ?pos) = Inr (m_fields r ! (unat ?pos div 64))"
    using i0 by (simp add: field_at_def d)
  note sb = shift_bounds [OF n]
  show ?thesis
  proof (cases "bitsAvailable ?pos < n")
    case True
    then have lt: "64 - unat ?pos mod 64 < unat n"
      by (simp add: word_less_nat_alt unat_bitsAvailable)
    define q m where "q = unat ?pos div 64" and "m = unat ?pos mod 64"
    have "unat ?pos = 64 * q + m" by (simp add: q_def m_def)
    with lt p s unat_u64_bound [of "m_sizeBits r"]
    have "q + 1 < length (m_fields r)" and "q + 1 < 2 ^ 64"
      unfolding m_def [symmetric] by simp_all
    then have i1: "unat ?pos div 64 + 1 < length (m_fields r)"
      and "unat ?pos div 64 + 1 < 2 ^ 64" unfolding q_def by simp_all
    then have "unat (drop_bit 6 ?pos + 1) = unat ?pos div 64 + 1"
      by (simp add: unat_word_ariths d)
    then have f1: "field_at r (drop_bit 6 ?pos + 1) = Inr (m_fields r ! (unat ?pos div 64 + 1))"
      using i1 by (simp add: field_at_def)
    show ?thesis
      using True by (simp add: ReadBits64_def assert_fails_def n a2 f0 f1 sb bindE_def shr64_def shl64_def)
  next
    case False
    then show ?thesis
      by (simp add: ReadBits64_def assert_fails_def n a2 f0 sb bindE_def shr64_def shl64_def)
  qed
qed

lemma ReadBits64_times_returns:
  assumes n: "1 \<le> n" "n \<le> 64"
    and p: "unat (m_position r) + k * unat n \<le> unat (m_sizeBits r)"
    and s: "unat (m_sizeBits r) \<le> 64 * length (m_fields r)"
  shows "ReadBits64_times k dbg r n = Inr (r\<lparr>m_position := m_position r + of_nat k * ucast n\<rparr>)"
  using p s
proof (induction k arbitrary: r)
  case 0
  then show ?case by simp
next
  case (Suc k)
  let ?r' = "r\<lparr>m_position := m_position r + ucast n\<rparr>"
  have "unat (m_position r) + unat n \<le> unat (m_sizeBits r)" using Suc.prems by simp
  from ReadBits64_returns [OF n this Suc.prems(2)]
  obtain v where v: "ReadBits64 dbg r n = Inr (v, ?r')" ..
  have "unat (m_position r) + unat n < 2 ^ 64"
    using Suc.prems(1) unat_u64_bound [of "m_sizeBits r"] by simp
  then have "unat (m_position ?r') = unat (m_position r) + unat n"
    by (simp add: unat_word_ariths unat_ucast_32_64)
  then have "unat (m_position ?r') + k * unat n \<le> unat (m_sizeBits ?r')"
    using Suc.prems(1) by simp
  from Suc.IH [OF this] Suc.prems(2)
  have "ReadBits64_times k dbg ?r' n = Inr (?r'\<lparr>m_position := m_position ?r' + of_nat k * ucast n\<rparr>)"
    by simp
  then show ?case by (simp add: v bindE_def algebra_simps)
qed

subsection \<open>Reading the first field\<close>

lemma top_bits:
  assumes "k < 64" "unat (v::uint64) < 2 ^ (64 - k)"
  shows "drop_bit k (push_bit k v) AND drop_bit k 0xFFFFFFFFFFFFFFFF = v"
proof -
  have t: "take_bit (64 - k) v = v"
  proof (rule word_unat_eq_iff [THEN iffD2])
    show "unat (take_bit (64 - k) v) = unat v"
      using assms(2) by (simp add: unsigned_take_bit_eq take_bit_nat_eq_self)
  qed
  have m: "(0xFFFFFFFFFFFFFFFF :: uint64) = - 1" by simp
  have "drop_bit k (push_bit k v) = take_bit (64 - k) v"
    by (rule bit_eqI) (use assms(1) in \<open>auto simp add: bit_simps\<close>)
  moreover have "drop_bit k (- 1 :: uint64) = mask (64 - k)"
    by (rule bit_eqI) (use assms(1) in \<open>auto simp add: bit_simps\<close>)
  ultimately show ?thesis unfolding m by (simp add: t flip: take_bit_eq_mask)
qed

lemma ReadBits64_first:
  assumes n: "1 \<le> n" "n \<le> 64" and v: "unat v < 2 ^ unat n" 
    and r: "m_fields r = push_bit (64 - unat n) v # rest" "m_position r = 0" "ucast n \<le> m_sizeBits r"
  shows "ReadBits64 dbg r n = Inr (v, r\<lparr>m_position := ucast n\<rparr>)"
proof -
  have b: "1 \<le> unat n" "unat n \<le> 64" using n by (simp_all add: word_le_nat_alt)
  have a: "unat (bitsAvailable 0) = 64" by (simp add: unat_bitsAvailable)
  then have a': "bitsAvailable 0 = 64" by (simp add: word_unat_eq_iff)
  have fs: "unat (field_shift 0 n) = 64 - unat n"
    using n by (simp add: field_shift_def a' max_def unat_sub)
  have ms: "unat (mask_shift n) = 64 - unat n"
    using n by (simp add: mask_shift_def unat_sub)
  have nl: "\<not> 64 < n" using n by simp
  have k: "64 - unat n < 64" using b by simp
  have v': "unat v < 2 ^ (64 - (64 - unat n))" using v b by simp
  show ?thesis
    using r k nl by (simp add: ReadBits64_def assert_fails_def n Let_def field_at_def bindE_def
        shr64_def fs ms a' top_bits [OF k v'])
qed

subsection \<open>The claims about the BitReader\<close>

lemmas ReadBits64_eval = ReadBits64_def assert_fails_def bindE_def field_at_def shr64_def shl64_def
  field_shift_def bitsNeeded_def cross_shift_def mask_shift_def bitsAvailable_def Let_def

lemma scenario_buffer:
  "map (\<lambda>f. load64_le (store64_be f)) [0xAAAAAAAAAAAAAAAA, 0xBBBBBBBBBBBBBBBB] =
   [0xAAAAAAAAAAAAAAAA, 0xBBBBBBBBBBBBBBBB]"
  by (simp add: load_store_Swap64 Swap64_def)

lemma scenario_init:
  "BitReader_init dbg [0xAAAAAAAAAAAAAAAA, 0xBBBBBBBBBBBBBBBB] 128 =
   Inr \<lparr>m_fields = [0xAAAAAAAAAAAAAAAA, 0xBBBBBBBBBBBBBBBB], m_position = 0, m_sizeBits = 128\<rparr>"
  by (simp add: BitReader_init_def assert_fails_def bindE_def Swap64_def)

lemma scenario_read4:
  "ReadBits64 dbg \<lparr>m_fields = [0xAAAAAAAAAAAAAAAA, 0xBBBBBBBBBBBBBBBB], m_position = 0, m_sizeBits = 128\<rparr> 4 =
   Inr (0xA, \<lparr>m_fields = [0xAAAAAAAAAAAAAAAA, 0xBBBBBBBBBBBBBBBB], m_position = 4, m_sizeBits = 128\<rparr>)"
  by (simp add: ReadBits64_eval)

lemma scenario_read1s:
  "ReadBits64_times 60 dbg \<lparr>m_fields = [0xAAAAAAAAAAAAAAAA, 0xBBBBBBBBBBBBBBBB], m_position = 4, m_sizeBits = 128\<rparr> 1 =
   Inr \<lparr>m_fields = [0xAAAAAAAAAAAAAAAA, 0xBBBBBBBBBBBBBBBB], m_position = 64, m_sizeBits = 128\<rparr>"
  by (subst ReadBits64_times_returns) simp_all

lemma scenario_read8:
  "ReadBits64 dbg \<lparr>m_fields = [0xAAAAAAAAAAAAAAAA, 0xBBBBBBBBBBBBBBBB], m_position = 64, m_sizeBits = 128\<rparr> 8 =
   Inr (0xBB, \<lparr>m_fields = [0xAAAAAAAAAAAAAAAA, 0xBBBBBBBBBBBBBBBB], m_position = 72, m_sizeBits = 128\<rparr>)"
  by (simp add: ReadBits64_eval)

lemma init_encoded:
  assumes "length fs < 2 ^ 57"
  shows "BitReader_init dbg (map (\<lambda>f. load64_le (store64_be f)) fs) (of_nat (64 * length fs)) =
     Inr \<lparr>m_fields = fs, m_position = 0, m_sizeBits = of_nat (64 * length fs)\<rparr>"
  using BitReader_init_aligned [of "length fs" "map (\<lambda>f. load64_le (store64_be f)) fs" dbg] assms
  by (simp add: comp_def Swap64_load_store del: of_nat_mult)

text \<open>
  C4. For every value \<open>v\<close> of \<open>n\<close> bits (\<open>1 \<le> n \<le> 64\<close>) that is written left-justified
  into the first of a sequence of big-endian 64-bit fields, a reader constructed over the
  buffer (as the little-endian host loads it, with the bit length of the whole buffer)
  returns \<open>v\<close> on \<open>ReadBits64 n\<close>. Over the buffer of the two fields
  \<open>0xAAAAAAAAAAAAAAAA\<close> and \<open>0xBBBBBBBBBBBBBBBB\<close> with \<open>sizeBits = 128\<close>, \<open>ReadBits64 4\<close> returns
  \<open>0xA\<close>, 60 further reads of one bit lead to position 64, and \<open>ReadBits64 8\<close> then returns
  \<open>0xBB\<close>. Every read that returns advances the position by its bit count.
\<close>

theorem C4_ReadBits64_roundtrip:
  "(1 \<le> n \<and> n \<le> 64 \<and> unat v < 2 ^ unat n \<and> Suc (length rest) < 2 ^ 57 \<longrightarrow>
      (\<exists>r. BitReader_init dbg
              (map (\<lambda>f. load64_le (store64_be f)) (push_bit (64 - unat n) v # rest))
              (of_nat (64 * Suc (length rest))) = Inr r \<and>
            ReadBits64 dbg r n = Inr (v, r\<lparr>m_position := ucast n\<rparr>))) \<and>
   (BitReader_init dbg (map (\<lambda>f. load64_le (store64_be f)) [0xAAAAAAAAAAAAAAAA, 0xBBBBBBBBBBBBBBBB]) 128 =
      Inr \<lparr>m_fields = [0xAAAAAAAAAAAAAAAA, 0xBBBBBBBBBBBBBBBB], m_position = 0, m_sizeBits = 128\<rparr> \<and>
    ReadBits64 dbg \<lparr>m_fields = [0xAAAAAAAAAAAAAAAA, 0xBBBBBBBBBBBBBBBB], m_position = 0, m_sizeBits = 128\<rparr> 4 =
      Inr (0xA, \<lparr>m_fields = [0xAAAAAAAAAAAAAAAA, 0xBBBBBBBBBBBBBBBB], m_position = 4, m_sizeBits = 128\<rparr>) \<and>
    ReadBits64_times 60 dbg \<lparr>m_fields = [0xAAAAAAAAAAAAAAAA, 0xBBBBBBBBBBBBBBBB], m_position = 4, m_sizeBits = 128\<rparr> 1 =
      Inr \<lparr>m_fields = [0xAAAAAAAAAAAAAAAA, 0xBBBBBBBBBBBBBBBB], m_position = 64, m_sizeBits = 128\<rparr> \<and>
    ReadBits64 dbg \<lparr>m_fields = [0xAAAAAAAAAAAAAAAA, 0xBBBBBBBBBBBBBBBB], m_position = 64, m_sizeBits = 128\<rparr> 8 =
      Inr (0xBB, \<lparr>m_fields = [0xAAAAAAAAAAAAAAAA, 0xBBBBBBBBBBBBBBBB], m_position = 72, m_sizeBits = 128\<rparr>)) \<and>
   (\<forall>r w r'. ReadBits64 dbg r n = Inr (w, r') \<longrightarrow> m_position r' = m_position r + ucast n)"
proof (intro conjI impI allI)
  assume h: "1 \<le> n \<and> n \<le> 64 \<and> unat v < 2 ^ unat n \<and> Suc (length rest) < 2 ^ 57"
  let ?fs = "push_bit (64 - unat n) v # rest"
  let ?r = "\<lparr>m_fields = ?fs, m_position = 0, m_sizeBits = of_nat (64 * length ?fs)\<rparr>"
  have i: "BitReader_init dbg (map (\<lambda>f. load64_le (store64_be f)) ?fs) (of_nat (64 * length ?fs)) = Inr ?r"
    using h by (intro init_encoded) simp
  have n64: "unat n \<le> 64" using h by (simp add: word_le_nat_alt)
  have "64 * length ?fs < 2 ^ 64" using h by simp
  then have u: "unat (of_nat (64 * length ?fs) :: uint64) = 64 * length ?fs"
    by (simp only: unat_of_nat len_of_numeral_defs) simp
  have "unat (ucast n :: uint64) = unat n" by (rule unat_ucast_32_64)
  then have le: "(ucast n :: uint64) \<le> m_sizeBits ?r"
    using n64 u by (simp add: word_le_nat_alt del: of_nat_mult)
  have "ReadBits64 dbg ?r n = Inr (v, ?r\<lparr>m_position := ucast n\<rparr>)"
    using h le by (intro ReadBits64_first [where rest = rest]) simp_all
  with i show "\<exists>r. BitReader_init dbg (map (\<lambda>f. load64_le (store64_be f)) ?fs)
      (of_nat (64 * Suc (length rest))) = Inr r \<and> ReadBits64 dbg r n = Inr (v, r\<lparr>m_position := ucast n\<rparr>)"
    by (intro exI [of _ ?r]) (simp del: of_nat_mult)
next
  fix r w r'
  assume "ReadBits64 dbg r n = Inr (w, r')"
  from ReadBits64_position [OF this] show "m_position r' = m_position r + ucast n" by simp
qed (simp_all only: scenario_buffer scenario_init scenario_read4 scenario_read1s scenario_read8)

theorem C4_ReadBits64_roundtrip_witness:
  "(1::uint32) \<le> 4 \<and> (4::uint32) \<le> 64 \<and> unat (0xA::uint64) < 2 ^ unat (4::uint32) \<and>
   (\<exists>r. BitReader_init True
          (map (\<lambda>f. load64_le (store64_be f)) [push_bit 60 0xA, 0xBBBBBBBBBBBBBBBB]) 128 = Inr r \<and>
        ReadBits64 True r 4 = Inr (0xA, r\<lparr>m_position := 4\<rparr>)) \<and>
   ReadBits64 True \<lparr>m_fields = [0xAAAAAAAAAAAAAAAA, 0xBBBBBBBBBBBBBBBB], m_position = 0, m_sizeBits = 128\<rparr> 4 =
      Inr (0xA, \<lparr>m_fields = [0xAAAAAAAAAAAAAAAA, 0xBBBBBBBBBBBBBBBB], m_position = 4, m_sizeBits = 128\<rparr>) \<and>
   m_position \<lparr>m_fields = [0xAAAAAAAAAAAAAAAA, 0xBBBBBBBBBBBBBBBB], m_position = 4, m_sizeBits = 128\<rparr> =
   m_position \<lparr>m_fields = [0xAAAAAAAAAAAAAAAA, 0xBBBBBBBBBBBBBBBB], m_position = 0, m_sizeBits = 128\<rparr> + ucast (4::uint32)"
proof -
  note t = C4_ReadBits64_roundtrip [of 4 "0xA" "[0xBBBBBBBBBBBBBBBB]" True]
  have a: "\<exists>r. BitReader_init True
          (map (\<lambda>f. load64_le (store64_be f)) [push_bit 60 0xA, 0xBBBBBBBBBBBBBBBB]) 128 = Inr r \<and>
        ReadBits64 True r 4 = Inr (0xA, r\<lparr>m_position := 4\<rparr>)"
    using t by simp
  have b: "ReadBits64 True \<lparr>m_fields = [0xAAAAAAAAAAAAAAAA, 0xBBBBBBBBBBBBBBBB], m_position = 0, m_sizeBits = 128\<rparr> 4 =
      Inr (0xA, \<lparr>m_fields = [0xAAAAAAAAAAAAAAAA, 0xBBBBBBBBBBBBBBBB], m_position = 4, m_sizeBits = 128\<rparr>)"
    using t by blast
  have c: "m_position \<lparr>m_fields = [0xAAAAAAAAAAAAAAAA, 0xBBBBBBBBBBBBBBBB], m_position = 4, m_sizeBits = 128\<rparr> =
   m_position \<lparr>m_fields = [0xAAAAAAAAAAAAAAAA, 0xBBBBBBBBBBBBBBBB], m_position = 0, m_sizeBits = 128\<rparr> + ucast (4::uint32)"
    using t b by blast
  show ?thesis using a b c by simp
qed

text \<open>
  C10. For every call \<open>ReadBits64 bitCount\<close> with \<open>1 \<le> bitCount \<le> 64\<close> and
  \<open>position + bitCount \<le> sizeBits\<close>, every shift amount that the function evaluates is at most
  63: the shift of the current field, the two shifts of the cross-field branch (when that
  branch is taken) and the shift of the mask. So the call does not end in
  \<open>ShiftOutOfRange\<close>. At \<open>bitCount = 0\<close> the mask is shifted by 64, and a call whose first
  field is in range and whose assertions hold ends in \<open>ShiftOutOfRange\<close>.
\<close>

theorem C10_ReadBits64_shift_amounts:
  "(1 \<le> bitCount \<and> bitCount \<le> 64 \<and> m_position r + ucast bitCount \<le> m_sizeBits r \<longrightarrow>
      unat (field_shift (m_position r) bitCount) \<le> 63 \<and>
      (bitsAvailable (m_position r) < bitCount \<longrightarrow>
         unat (bitsNeeded (m_position r) bitCount) \<le> 63 \<and>
         unat (cross_shift (m_position r) bitCount) \<le> 63) \<and>
      unat (mask_shift bitCount) \<le> 63 \<and>
      ReadBits64 dbg r bitCount \<noteq> Inl ShiftOutOfRange) \<and>
   unat (mask_shift 0) = 64 \<and>
   (unat (drop_bit 6 (m_position r)) < length (m_fields r) \<and> m_position r \<le> m_sizeBits r \<longrightarrow>
      ReadBits64 dbg r 0 = Inl ShiftOutOfRange)"
proof (intro conjI impI)
  assume "unat (drop_bit 6 (m_position r)) < length (m_fields r) \<and> m_position r \<le> m_sizeBits r"
  then show "ReadBits64 dbg r 0 = Inl ShiftOutOfRange"
    by (intro ReadBits64_zero [where f = "m_fields r ! unat (drop_bit 6 (m_position r))"])
      (simp_all add: field_at_def)
next
  show "unat (mask_shift 0) = 64" by (simp add: mask_shift_def)
next
  assume h: "1 \<le> bitCount \<and> bitCount \<le> 64 \<and> m_position r + ucast bitCount \<le> m_sizeBits r"
  then have n: "1 \<le> bitCount" "bitCount \<le> 64" by simp_all
  note sb = shift_bounds [OF n]
  show "unat (field_shift (m_position r) bitCount) \<le> 63"
    using sb(1) [of "m_position r"] by simp
  show "unat (mask_shift bitCount) \<le> 63" using sb(2) by simp
  show "ReadBits64 dbg r bitCount \<noteq> Inl ShiftOutOfRange"
    by (rule ReadBits64_no_shift_error [OF n])
  assume c: "bitsAvailable (m_position r) < bitCount"
  show "unat (bitsNeeded (m_position r) bitCount) \<le> 63" using sb(3) [OF c] by simp
  show "unat (cross_shift (m_position r) bitCount) \<le> 63" using sb(4) [OF c] by simp
qed

theorem C10_ReadBits64_shift_amounts_witness:
  "(1::uint32) \<le> 8 \<and> (8::uint32) \<le> 64 \<and> (60::uint64) + ucast (8::uint32) \<le> 128 \<and>
   bitsAvailable 60 < 8 \<and>
   unat (field_shift 60 8) \<le> 63 \<and> unat (bitsNeeded 60 8) \<le> 63 \<and> unat (cross_shift 60 8) \<le> 63 \<and>
   unat (mask_shift 8) \<le> 63 \<and>
   ReadBits64 True \<lparr>m_fields = [0xAAAAAAAAAAAAAAAA, 0xBBBBBBBBBBBBBBBB], m_position = 60, m_sizeBits = 128\<rparr> 8
     \<noteq> Inl ShiftOutOfRange \<and>
   ReadBits64 True \<lparr>m_fields = [0xAAAAAAAAAAAAAAAA, 0xBBBBBBBBBBBBBBBB], m_position = 60, m_sizeBits = 128\<rparr> 0
     = Inl ShiftOutOfRange"
proof -
  have a: "bitsAvailable 60 < 8" by (simp add: bitsAvailable_def)
  show ?thesis
    using a C10_ReadBits64_shift_amounts [of 8
      "\<lparr>m_fields = [0xAAAAAAAAAAAAAAAA, 0xBBBBBBBBBBBBBBBB], m_position = 60, m_sizeBits = 128\<rparr>" True]
    by simp
qed

text \<open>
  C8 (as the code has it). For every \<open>sizeBits\<close> that is a multiple of 64, which is what
  the constructor asserts, construction replaces each of the \<open>sizeBits / 64\<close> fields of the
  buffer by its byte swap and leaves the rest of the buffer as it is; over the big-endian
  encoding of fields \<open>fs\<close>, as the host loads it, the reader's fields are \<open>fs\<close> themselves.
\<close>

theorem C8_BitReader_init_whole_fields:
  "(k \<le> length buf \<and> k < 2 ^ 57 \<longrightarrow>
      BitReader_init dbg buf (of_nat (64 * k)) =
        Inr \<lparr>m_fields = map Swap64 (take k buf) @ drop k buf,
             m_position = 0, m_sizeBits = of_nat (64 * k)\<rparr>) \<and>
   (length fs < 2 ^ 57 \<longrightarrow>
      BitReader_init dbg (map (\<lambda>f. load64_le (store64_be f)) fs) (of_nat (64 * length fs)) =
        Inr \<lparr>m_fields = fs, m_position = 0, m_sizeBits = of_nat (64 * length fs)\<rparr>)"
  using BitReader_init_aligned [of k buf dbg] init_encoded [of fs dbg] by blast

theorem C8_BitReader_init_whole_fields_witness:
  "BitReader_init True [0x0102030405060708, 0x1112131415161718, 0x2122232425262728] 128 =
     Inr \<lparr>m_fields = [0x0807060504030201, 0x1817161514131211, 0x2122232425262728],
          m_position = 0, m_sizeBits = 128\<rparr> \<and>
   BitReader_init True (map (\<lambda>f. load64_le (store64_be f)) [0x0102030405060708]) 64 =
     Inr \<lparr>m_fields = [0x0102030405060708], m_position = 0, m_sizeBits = 64\<rparr>"
  using C8_BitReader_init_whole_fields
    [of 2 "[0x0102030405060708, 0x1112131415161718, 0x2122232425262728]" True "[0x0102030405060708]"]
  by (simp add: Swap64_def)

text \<open>
  C8 as stated fails for a size that is not a multiple of 64. The eight data bits \<open>0xAB\<close>,
  left-justified in one big-endian field, with \<open>sizeBits = 8\<close>: a debug build stops at the
  assertion; a release build leaves the field \<open>0xAB\<close>, which has the data in its low bits, not
  the left-justified \<open>0xAB00000000000000\<close>, and reading eight bits gives 0.
\<close>

theorem C8_partial_field_counterexample:
  "load64_le (store64_be (push_bit 56 0xAB)) = 0xAB \<and>
   BitReader_init True [load64_le (store64_be (push_bit 56 0xAB))] 8 = Inl AssertionFailed \<and>
   BitReader_init False [load64_le (store64_be (push_bit 56 0xAB))] 8 =
     Inr \<lparr>m_fields = [0xAB], m_position = 0, m_sizeBits = 8\<rparr> \<and>
   (0xAB :: uint64) \<noteq> push_bit 56 0xAB \<and>
   ReadBits64 False \<lparr>m_fields = [0xAB], m_position = 0, m_sizeBits = 8\<rparr> 8 =
     Inr (0, \<lparr>m_fields = [0xAB], m_position = 8, m_sizeBits = 8\<rparr>)"
  by (simp add: load_store_Swap64 Swap64_def BitReader_init_def ReadBits64_eval)

text \<open>
  C5, evaluated on a read that spans three fields. Over the fields \<open>0\<close>,
  \<open>0xFFFFFFFFFFFFFFFF\<close>, \<open>0\<close>, after a read of 32 bits, \<open>ReadBits128 128\<close> returns
  \<open>0xFFFFFFFF00000000\<close>, whereas the 128 bits of the stream from bit 32 on are
  \<open>0xFFFFFFFFFFFFFFFF00000000\<close>: the upper 32 bits of the middle field are lost in the
  64-bit shift \<^verbatim>\<open>_fields[fieldIndex+1] << lastFieldBitsNeeded\<close>.
\<close>

theorem C5_ReadBits128_three_fields:
  "BitReader_init dbg (map (\<lambda>f. load64_le (store64_be f)) [0, 0xFFFFFFFFFFFFFFFF, 0]) 192 =
     Inr \<lparr>m_fields = [0, 0xFFFFFFFFFFFFFFFF, 0], m_position = 0, m_sizeBits = 192\<rparr> \<and>
   ReadBits64 dbg \<lparr>m_fields = [0, 0xFFFFFFFFFFFFFFFF, 0], m_position = 0, m_sizeBits = 192\<rparr> 32 =
     Inr (0, \<lparr>m_fields = [0, 0xFFFFFFFFFFFFFFFF, 0], m_position = 32, m_sizeBits = 192\<rparr>) \<and>
   ReadBits128 dbg \<lparr>m_fields = [0, 0xFFFFFFFFFFFFFFFF, 0], m_position = 32, m_sizeBits = 192\<rparr> 128 =
     Inr (0xFFFFFFFF00000000,
          \<lparr>m_fields = [0, 0xFFFFFFFFFFFFFFFF, 0], m_position = 160, m_sizeBits = 192\<rparr>) \<and>
   stream_bits_spec [0, 0xFFFFFFFFFFFFFFFF, 0] 32 128 = 0xFFFFFFFFFFFFFFFF00000000"
  by (simp add: load_store_Swap64 Swap64_def BitReader_init_def ReadBits128_def shr128_def shl128_def
      ReadBits64_eval stream_bits_spec_def stream_value_def)

section \<open>Properties of the write path\<close>

subsection \<open>Writes to one stream\<close>

lemma FileStream_Write_ok:
  assumes "fs_isOpen f" "\<forall>r\<in>set (fs_results f). 1 \<le> r" "bytes \<noteq> []"
  shows "\<exists>n j. 1 \<le> n \<and> n \<le> length bytes \<and>
     FileStream_Write f bytes =
       (int n, f\<lparr>fs_data := fs_data f @ take n bytes, fs_results := drop j (fs_results f)\<rparr>)"
proof (cases "fs_results f")
  case Nil
  then show ?thesis
    using assms by (intro exI [of _ "length bytes"] exI [of _ 0])
      (simp add: FileStream_Write_def Suc_le_eq)
next
  case (Cons r rs)
  then have "1 \<le> r" using assms(2) by simp
  then show ?thesis
    using assms Cons by (intro exI [of _ "min (nat r) (length bytes)"] exI [of _ 1])
      (auto simp add: FileStream_Write_def Suc_le_eq min_def)
qed

lemma WriteLoop_ok:
  assumes "fs_isOpen f" "\<forall>r\<in>set (fs_results f). 1 \<le> r" "sz \<le> length buffer"
  shows "\<exists>k. WriteLoop chk f sz buffer =
           Inr (f\<lparr>fs_data := fs_data f @ take sz buffer, fs_results := drop k (fs_results f)\<rparr>,
                drop sz buffer) \<and> (sz = 0 \<longrightarrow> k = 0)"
  using assms
proof (induction chk f sz buffer rule: WriteLoop.induct)
  case (1 chk f sz buffer)
  show ?case
  proof (cases "sz = 0")
    case True
    then show ?thesis by (intro exI [of _ 0]) simp
  next
    case False
    then have ne: "take sz buffer \<noteq> []" using "1.prems" by auto
    from FileStream_Write_ok [OF "1.prems"(1,2) ne]
    obtain n j where n: "1 \<le> n" "n \<le> length (take sz buffer)"
      and w: "FileStream_Write f (take sz buffer) =
        (int n, f\<lparr>fs_data := fs_data f @ take n (take sz buffer),
                     fs_results := drop j (fs_results f)\<rparr>)" by blast
    let ?f = "f\<lparr>fs_data := fs_data f @ take n (take sz buffer), fs_results := drop j (fs_results f)\<rparr>"
    have nsz: "n \<le> sz" using n(2) by simp
    have lb: "\<not> length buffer < sz" using "1.prems" by simp
    have a: "\<not> assert_fails chk (int n \<le> int sz)" using nsz by (simp add: assert_fails_def)
    have p1: "fs_isOpen ?f" using "1.prems" by simp
    have p2: "\<forall>r\<in>set (fs_results ?f). 1 \<le> r"
      using "1.prems"(2) by (auto dest: in_set_dropD)
    have p3: "sz - nat (int n) \<le> length (drop (nat (int n)) buffer)" using "1.prems" by simp
    have n1: "\<not> int n < 1" using n(1) by simp
    from "1.IH" [OF False lb w [symmetric] n1 a p1 p2 p3] n(1)
    obtain k where k: "WriteLoop chk ?f (sz - n) (drop n buffer) =
        Inr (?f\<lparr>fs_data := fs_data ?f @ take (sz - n) (drop n buffer), fs_results := drop k (fs_results ?f)\<rparr>,
             drop (sz - n) (drop n buffer))"
      by auto
    have tn: "take n (take sz buffer) = take n buffer" using nsz by (simp add: min_absorb1)
    have t: "take n buffer @ take (sz - n) (drop n buffer) = take sz buffer"
      using nsz by (metis le_add_diff_inverse take_add)
    have d: "drop (sz - n) (drop n buffer) = drop sz buffer" using nsz by simp
    have k': "WriteLoop chk (f\<lparr>fs_data := fs_data f @ take n buffer, fs_results := drop j (fs_results f)\<rparr>)
        (sz - n) (drop n buffer) =
        Inr (f\<lparr>fs_data := fs_data f @ take sz buffer, fs_results := drop (k + j) (fs_results f)\<rparr>,
             drop sz buffer)"
      using k nsz by (simp add: min_absorb1 t del: WriteLoop.simps)
    have "WriteLoop chk f sz buffer =
        Inr (f\<lparr>fs_data := fs_data f @ take sz buffer, fs_results := drop (k + j) (fs_results f)\<rparr>,
             drop sz buffer)"
      using False lb n(1) a nsz by (subst WriteLoop.simps) (simp add: w min_absorb1 k' del: WriteLoop.simps)
    then show ?thesis using False by blast
  qed
qed

lemma WriteToFile_whole:
  assumes "fs_isOpen f" "\<forall>r\<in>set (fs_results f). 1 \<le> r" "w \<le> length buffer"
    and "m_useDirectIO q \<Longrightarrow> 0 < m_blockSize q \<and> m_blockSize q dvd w"
  shows "\<exists>k. WriteToFile dbg q f w buffer bb =
           Inr (f\<lparr>fs_data := fs_data f @ take w buffer, fs_results := drop k (fs_results f)\<rparr>, bb) \<and>
           (w = 0 \<longrightarrow> k = 0)"
proof (cases "m_useDirectIO q")
  case False
  from WriteLoop_ok [OF assms(1-3), of False] obtain k where
    "WriteLoop False f w buffer =
       Inr (f\<lparr>fs_data := fs_data f @ take w buffer, fs_results := drop k (fs_results f)\<rparr>, drop w buffer)"
    "w = 0 \<longrightarrow> k = 0" by blast
  then show ?thesis using False by (intro exI [of _ k]) (simp add: WriteToFile_def bindE_def)
next
  case True
  then have B: "0 < m_blockSize q" "m_blockSize q dvd w" using assms(4) by simp_all
  then have e: "w div m_blockSize q * m_blockSize q = w" by simp
  from WriteLoop_ok [OF assms(1-3), of dbg] obtain k where
    "WriteLoop dbg f w buffer =
       Inr (f\<lparr>fs_data := fs_data f @ take w buffer, fs_results := drop k (fs_results f)\<rparr>, drop w buffer)"
    "w = 0 \<longrightarrow> k = 0" by blast
  then show ?thesis
    using True B by (intro exI [of _ k]) (simp add: WriteToFile_def bindE_def Let_def e)
qed

lemma ceil_blocks:
  assumes "0 < (B::nat)"
  shows "(sz + B - 1) div B * B = sz div B * B + (if sz mod B = 0 then 0 else B)"
proof -
  define q r where "q = sz div B" and "r = sz mod B"
  have sz: "sz = q * B + r" and r: "r < B" using assms by (simp_all add: q_def r_def)
  have qr: "(q * B + r + B - 1) div B = q + (if r = 0 then 0 else 1)"
  proof (cases "r = 0")
    case True
    have "(q * B + (B - 1)) div B = q + (B - 1) div B"
      using assms by (intro div_mult_self3) simp
    moreover have "q * B + r + B - 1 = q * B + (B - 1)" using True assms by simp
    ultimately show ?thesis using True assms by simp
  next
    case False
    then have e: "q * B + r + B - 1 = (q + 1) * B + (r - 1)" by (simp add: algebra_simps)
    have "((q + 1) * B + (r - 1)) div B = (q + 1) + (r - 1) div B"
      using assms by (intro div_mult_self3) simp
    then have "((q + 1) * B + (r - 1)) div B = q + 1" using r by simp
    then show ?thesis using False e by simp
  qed
  have "(sz + B - 1) div B = (q * B + r + B - 1) div B" using sz by simp
  then have "(sz + B - 1) div B = sz div B + (if sz mod B = 0 then 0 else 1)"
    unfolding qr by (simp only: q_def r_def)
  then show ?thesis by (simp add: algebra_simps)
qed



subsection \<open>The loop over the buckets\<close>

lemma stream_ok_grown:
  "stream_ok f \<Longrightarrow> stream_ok (f\<lparr>fs_data := d, fs_results := drop k (fs_results f)\<rparr>)"
  by (auto simp add: stream_ok_def dest: in_set_dropD)

lemma CmdWriteBuckets_loop_ok:
  fixes q :: DiskBufferQueue and sizes :: "uint32 list"
  assumes W_def: "W = (\<lambda>j. bucket_writeSize q (unat (sizes ! j)))"
    and S_def: "S = (\<lambda>j. bucket_stride q (unat (sizes ! j)))"
    and n: "n = length streams" "n \<le> length sizes" "i \<le> n"
    and B: "m_useDirectIO q \<Longrightarrow> 0 < m_blockSize q"
    and ok: "\<forall>j<n. stream_ok (streams ! j)"
    and mem: "\<forall>j. i \<le> j \<and> j < n \<and> 0 < W j \<longrightarrow> p + (\<Sum>l = i..<j. S l) + W j \<le> length mem"
  shows "\<exists>streams'. CmdWriteBuckets_loop dbg q sizes mem n i streams bb p =
            Inr (streams', bb, p + (\<Sum>l = i..<n. S l)) \<and>
          length streams' = n \<and>
          (\<forall>j<n. (j < i \<longrightarrow> streams' ! j = streams ! j) \<and>
                 (i \<le> j \<longrightarrow> (\<exists>k. streams' ! j =
                     (streams ! j)\<lparr>fs_data := fs_data (streams ! j) @
                                       take (W j) (drop (p + (\<Sum>l = i..<j. S l)) mem),
                                     fs_results := drop k (fs_results (streams ! j))\<rparr> \<and>
                     (W j = 0 \<longrightarrow> k = 0))))"
  using n ok mem
proof (induction "n - i" arbitrary: i streams p)
  case 0
  then have "i = n" by simp
  then show ?case using "0.prems"(1) by (subst CmdWriteBuckets_loop.simps) simp
next
  case (Suc m)
  then have i: "i < n" by simp
  let ?f = "streams ! i"
  have so: "stream_ok ?f" using Suc.prems(4) i by simp
  have wl: "W i \<le> length (drop p mem)"
  proof (cases "W i = 0")
    case True then show ?thesis by simp
  next
    case False
    then have "p + (\<Sum>l = i..<i. S l) + W i \<le> length mem" using Suc.prems(5) i by blast
    then show ?thesis by simp
  qed
  have dv: "m_useDirectIO q \<Longrightarrow> 0 < m_blockSize q \<and> m_blockSize q dvd W i"
    using B by (simp add: W_def bucket_writeSize_def)
  from WriteToFile_whole [OF _ _ wl dv, of ?f dbg bb] so
  obtain k where k: "WriteToFile dbg q ?f (W i) (drop p mem) bb =
      Inr (?f\<lparr>fs_data := fs_data ?f @ take (W i) (drop p mem), fs_results := drop k (fs_results ?f)\<rparr>, bb)"
    and k0: "W i = 0 \<longrightarrow> k = 0"
    by (auto simp add: stream_ok_def)
  let ?f' = "?f\<lparr>fs_data := fs_data ?f @ take (W i) (drop p mem), fs_results := drop k (fs_results ?f)\<rparr>"
  let ?streams = "streams[i := ?f']"
  have acc: "\<not> assert_fails dbg (fs_access ?f' = ReadWrite)"
    using so by (simp add: assert_fails_def stream_ok_def)
  have p1: "m = n - Suc i" using Suc.hyps(2) by simp
  have p2: "n = length ?streams" using Suc.prems(1) by simp
  have p4: "\<forall>j<n. stream_ok (?streams ! j)"
  proof (intro allI impI)
    fix j assume j: "j < n"
    show "stream_ok (?streams ! j)"
    proof (cases "j = i")
      case True
      have "?streams ! i = ?f'" using i Suc.prems(1) by simp
      then show ?thesis using True stream_ok_grown [OF so] by simp
    next
      case False
      then have "?streams ! j = streams ! j" by simp
      then show ?thesis using Suc.prems(4) j by simp
    qed
  qed
  have p5: "\<forall>j. Suc i \<le> j \<and> j < n \<and> 0 < W j \<longrightarrow> p + S i + (\<Sum>l = Suc i..<j. S l) + W j \<le> length mem"
  proof (intro allI impI)
    fix j assume j: "Suc i \<le> j \<and> j < n \<and> 0 < W j"
    then have "p + (\<Sum>l = i..<j. S l) + W j \<le> length mem" using Suc.prems(5) by simp
    moreover have "(\<Sum>l = i..<j. S l) = S i + (\<Sum>l = Suc i..<j. S l)"
      using j by (simp add: sum.atLeast_Suc_lessThan)
    ultimately show "p + S i + (\<Sum>l = Suc i..<j. S l) + W j \<le> length mem" by simp
  qed
  from Suc.hyps(1) [OF p1 p2 Suc.prems(2) _ p4 p5] i
  obtain streams' where r: "CmdWriteBuckets_loop dbg q sizes mem n (Suc i) ?streams bb (p + S i) =
            Inr (streams', bb, p + S i + (\<Sum>l = Suc i..<n. S l))"
    and l: "length streams' = n"
    and e: "\<forall>j<n. (j < Suc i \<longrightarrow> streams' ! j = ?streams ! j) \<and>
                 (Suc i \<le> j \<longrightarrow> (\<exists>k. streams' ! j =
                     (?streams ! j)\<lparr>fs_data := fs_data (?streams ! j) @
                                       take (W j) (drop (p + S i + (\<Sum>l = Suc i..<j. S l)) mem),
                                     fs_results := drop k (fs_results (?streams ! j))\<rparr> \<and>
                     (W j = 0 \<longrightarrow> k = 0)))"
    by auto
  have s: "p + S i + (\<Sum>l = Suc i..<n. S l) = p + (\<Sum>l = i..<n. S l)"
    using i by (simp add: sum.atLeast_Suc_lessThan)
  have il: "\<not> length sizes \<le> i" "\<not> length streams \<le> i" using i Suc.prems(1,2) by simp_all
  have dz: "\<not> (m_useDirectIO q \<and> m_blockSize q = 0)" using B by auto
  have step: "CmdWriteBuckets_loop dbg q sizes mem n i streams bb p =
      Inr (streams', bb, p + (\<Sum>l = i..<n. S l))"
    using i il dz acc k r s
    by (subst CmdWriteBuckets_loop.simps)
      (simp add: Let_def W_def S_def bucket_writeSize_def bucket_stride_def
        del: CmdWriteBuckets_loop.simps)
  have each: "(j < i \<longrightarrow> streams' ! j = streams ! j) \<and>
                 (i \<le> j \<longrightarrow> (\<exists>k. streams' ! j =
                     (streams ! j)\<lparr>fs_data := fs_data (streams ! j) @
                                       take (W j) (drop (p + (\<Sum>l = i..<j. S l)) mem),
                                     fs_results := drop k (fs_results (streams ! j))\<rparr> \<and>
                     (W j = 0 \<longrightarrow> k = 0)))" if j: "j < n" for j
  proof (cases j i rule: linorder_cases)
    case less
    then show ?thesis using e j by simp
  next
    case equal
    have "streams' ! i = ?f'" using e i Suc.prems(1) by simp
    then show ?thesis using equal k0 by auto
  next
    case greater
    then have sj: "(\<Sum>l = i..<j. S l) = S i + (\<Sum>l = Suc i..<j. S l)"
      by (simp add: sum.atLeast_Suc_lessThan)
    have "?streams ! j = streams ! j" using greater by simp
    then show ?thesis using e j greater sj by (simp add: add.assoc)
  qed
  show ?case using step l each by blast
qed

lemma CmdWriteBuckets_ok:
  fixes q :: DiskBufferQueue and sizes :: "uint32 list"
  assumes W_def: "W = (\<lambda>j. bucket_writeSize q (unat (sizes ! j)))"
    and S_def: "S = (\<lambda>j. bucket_stride q (unat (sizes ! j)))"
    and st: "set_files (m_files q fileId) = streams" "streams \<noteq> []" "length streams \<le> length sizes"
    and ok: "\<forall>f\<in>set streams. stream_ok f"
    and B: "m_useDirectIO q \<Longrightarrow> 0 < m_blockSize q"
    and mem: "\<forall>j<length streams. 0 < W j \<longrightarrow> (\<Sum>l<j. S l) + W j \<le> length mem"
  shows "\<exists>streams'. CmdWriteBuckets dbg q fileId mem sizes =
            Inr (q\<lparr>m_files := (m_files q) (fileId := (m_files q fileId)\<lparr>set_files := streams'\<rparr>)\<rparr>,
                 \<Sum>l<length streams. S l) \<and>
          length streams' = length streams \<and>
          (\<forall>j<length streams. \<exists>k. streams' ! j =
                     (streams ! j)\<lparr>fs_data := fs_data (streams ! j) @
                                       take (W j) (drop (\<Sum>l<j. S l) mem),
                                     fs_results := drop k (fs_results (streams ! j))\<rparr> \<and>
                     (W j = 0 \<longrightarrow> k = 0))"
proof -
  let ?n = "length streams"
  have ok': "\<forall>j<?n. stream_ok (streams ! j)" using ok by simp
  have mem': "\<forall>j. 0 \<le> j \<and> j < ?n \<and> 0 < W j \<longrightarrow> 0 + (\<Sum>l = 0..<j. S l) + W j \<le> length mem"
    using mem by (simp add: atLeast0LessThan)
  from CmdWriteBuckets_loop_ok [OF W_def S_def refl st(3) _ B ok' mem',
      where dbg = dbg and bb = "m_blockBuffer q"]
  obtain streams' where r: "CmdWriteBuckets_loop dbg q sizes mem ?n 0 streams (m_blockBuffer q) 0 =
            Inr (streams', m_blockBuffer q, 0 + (\<Sum>l = 0..<?n. S l))"
    and l: "length streams' = ?n"
    and e: "\<forall>j<?n. (j < 0 \<longrightarrow> streams' ! j = streams ! j) \<and>
                 (0 \<le> j \<longrightarrow> (\<exists>k. streams' ! j =
                     (streams ! j)\<lparr>fs_data := fs_data (streams ! j) @
                                       take (W j) (drop (0 + (\<Sum>l = 0..<j. S l)) mem),
                                     fs_results := drop k (fs_results (streams ! j))\<rparr> \<and>
                     (W j = 0 \<longrightarrow> k = 0)))"
    by (auto simp del: CmdWriteBuckets_loop.simps)
  have a: "\<not> assert_fails dbg (fs_access (streams ! 0) = ReadWrite)"
    using ok st(2) by (cases streams) (simp_all add: assert_fails_def stream_ok_def)
  have "CmdWriteBuckets dbg q fileId mem sizes =
            Inr (q\<lparr>m_files := (m_files q) (fileId := (m_files q fileId)\<lparr>set_files := streams'\<rparr>)\<rparr>,
                 \<Sum>l<?n. S l)"
    using st(1,2) a r
    by (simp add: CmdWriteBuckets_def Let_def bindE_def atLeast0LessThan del: CmdWriteBuckets_loop.simps)
  moreover have "\<forall>j<?n. \<exists>k. streams' ! j =
                     (streams ! j)\<lparr>fs_data := fs_data (streams ! j) @
                                       take (W j) (drop (\<Sum>l<j. S l) mem),
                                     fs_results := drop k (fs_results (streams ! j))\<rparr> \<and>
                     (W j = 0 \<longrightarrow> k = 0)"
    using e by (simp add: atLeast0LessThan)
  ultimately show ?thesis using l by blast
qed

lemma RoundUp_eq:
  "0 < B \<Longrightarrow> RoundUpToNextBoundaryT s B = s div B * B + (if s mod B = 0 then 0 else B)"
  unfolding RoundUpToNextBoundaryT_def by (rule ceil_blocks)

lemma scenario_streams_4:
  "scenario_streams [d0, d1, d2, d3] =
     [\<lparr>fs_path = ''/tmp/y0_0.tmp'', fs_isOpen = True, fs_blockSize = 4096, fs_access = ReadWrite,
       fs_data = d0, fs_results = []\<rparr>,
      \<lparr>fs_path = ''/tmp/y0_1.tmp'', fs_isOpen = True, fs_blockSize = 4096, fs_access = ReadWrite,
       fs_data = d1, fs_results = []\<rparr>,
      \<lparr>fs_path = ''/tmp/y0_2.tmp'', fs_isOpen = True, fs_blockSize = 4096, fs_access = ReadWrite,
       fs_data = d2, fs_results = []\<rparr>,
      \<lparr>fs_path = ''/tmp/y0_3.tmp'', fs_isOpen = True, fs_blockSize = 4096, fs_access = ReadWrite,
       fs_data = d3, fs_results = []\<rparr>]"
  by (simp add: scenario_streams_def tmp_baseName_def upt_rec)

lemma scenario_run:
  assumes "20480 \<le> length mem"
  shows "CmdWriteBuckets dbg (scenario_queue [d0, d1, d2, d3]) Y0 mem [4100, 4096, 0, 8192] =
     Inr (scenario_queue [d0 @ take 4096 mem, d1 @ take 4096 (drop 8192 mem), d2,
                          d3 @ take 8192 (drop 12288 mem)], 20480)"
proof -
  have m: "\<not> length mem < 4096" "\<not> length mem - 8192 < 4096" "\<not> length mem - 12288 < 8192"
    using assms by simp_all
  have ne: "mem \<noteq> []" using assms by auto
  show ?thesis
    using assms m ne
    by (simp add: CmdWriteBuckets_def scenario_queue_def scenario_streams_4 assert_fails_def
        WriteToFile_def FileStream_Write_def RoundUpToNextBoundaryT_def bindE_def Let_def fun_eq_iff)
qed

subsection \<open>The claims about the write path\<close>







text \<open>
  C2. A \<^verbatim>\<open>WriteBuckets\<close> command over usable streams returns. In direct-I/O mode with block
  size \<open>B\<close> stream \<open>i\<close> receives exactly the first \<open>sizes[i] div B * B\<close> bytes found at the input
  offset of bucket \<open>i\<close>, which is the sum of \<open>round_up(sizes[j], B)\<close> over the buckets before
  it; a stream whose bucket is smaller than \<open>B\<close> is left as it was (no write is issued), the
  scratch block is not touched, and the input pointer ends at the sum of all rounded-up
  sizes. In buffered mode stream \<open>i\<close> receives \<open>sizes[i]\<close> bytes and the pointer advances by
  \<open>sizes[i]\<close>.
\<close>

theorem C2_CmdWriteBuckets:
  assumes "set_files (m_files q fileId) = streams" and "streams \<noteq> []"
    and "length streams \<le> length sizes"
    and "\<forall>f\<in>set streams. stream_ok f"
    and "m_blockSize q = B"
  shows
   "(m_useDirectIO q \<and> 0 < B \<and>
     (\<forall>i<length streams. B \<le> unat (sizes ! i) \<longrightarrow>
        (\<Sum>j<i. RoundUpToNextBoundaryT (unat (sizes ! j)) B) + unat (sizes ! i) div B * B \<le> length mem) \<longrightarrow>
     (\<exists>q'. CmdWriteBuckets dbg q fileId mem sizes =
              Inr (q', \<Sum>j<length streams. RoundUpToNextBoundaryT (unat (sizes ! j)) B) \<and>
           length (set_files (m_files q' fileId)) = length streams \<and>
           m_blockBuffer q' = m_blockBuffer q \<and>
           (\<forall>i<length streams.
              fs_data (set_files (m_files q' fileId) ! i) =
                fs_data (streams ! i) @
                take (unat (sizes ! i) div B * B)
                  (drop (\<Sum>j<i. RoundUpToNextBoundaryT (unat (sizes ! j)) B) mem) \<and>
              (unat (sizes ! i) < B \<longrightarrow> set_files (m_files q' fileId) ! i = streams ! i)))) \<and>
    (\<not> m_useDirectIO q \<and>
     (\<forall>i<length streams. 0 < unat (sizes ! i) \<longrightarrow>
        (\<Sum>j<i. unat (sizes ! j)) + unat (sizes ! i) \<le> length mem) \<longrightarrow>
     (\<exists>q'. CmdWriteBuckets dbg q fileId mem sizes = Inr (q', \<Sum>j<length streams. unat (sizes ! j)) \<and>
           length (set_files (m_files q' fileId)) = length streams \<and>
           m_blockBuffer q' = m_blockBuffer q \<and>
           (\<forall>i<length streams.
              fs_data (set_files (m_files q' fileId) ! i) =
                fs_data (streams ! i) @
                take (unat (sizes ! i)) (drop (\<Sum>j<i. unat (sizes ! j)) mem) \<and>
              (unat (sizes ! i) = 0 \<longrightarrow> set_files (m_files q' fileId) ! i = streams ! i))))"
proof (intro conjI impI)
  assume h: "m_useDirectIO q \<and> 0 < B \<and>
     (\<forall>i<length streams. B \<le> unat (sizes ! i) \<longrightarrow>
        (\<Sum>j<i. RoundUpToNextBoundaryT (unat (sizes ! j)) B) + unat (sizes ! i) div B * B \<le> length mem)"
  let ?W = "\<lambda>j. unat (sizes ! j) div B * B"
  let ?S = "\<lambda>j. RoundUpToNextBoundaryT (unat (sizes ! j)) B"
  have W: "?W = (\<lambda>j. bucket_writeSize q (unat (sizes ! j)))"
    using h assms(5) by (simp add: bucket_writeSize_def)
  have S: "?S = (\<lambda>j. bucket_stride q (unat (sizes ! j)))"
    using h assms(5) by (simp add: bucket_stride_def)
  have B: "m_useDirectIO q \<Longrightarrow> 0 < m_blockSize q" using h assms(5) by simp
  have mem: "\<forall>j<length streams. 0 < ?W j \<longrightarrow> (\<Sum>l<j. ?S l) + ?W j \<le> length mem"
  proof (intro allI impI)
    fix j assume j: "j < length streams" and "0 < ?W j"
    then have "0 < unat (sizes ! j) div B" by simp
    then have "B \<le> unat (sizes ! j)" using h by (simp add: div_greater_zero_iff)
    then show "(\<Sum>l<j. ?S l) + ?W j \<le> length mem" using h j by simp
  qed
  from CmdWriteBuckets_ok [OF W S assms(1-4) B mem, of dbg]
  obtain streams' where r: "CmdWriteBuckets dbg q fileId mem sizes =
            Inr (q\<lparr>m_files := (m_files q) (fileId := (m_files q fileId)\<lparr>set_files := streams'\<rparr>)\<rparr>,
                 \<Sum>l<length streams. ?S l)"
    and l: "length streams' = length streams"
    and e: "\<forall>j<length streams. \<exists>k. streams' ! j =
                     (streams ! j)\<lparr>fs_data := fs_data (streams ! j) @
                                       take (?W j) (drop (\<Sum>l<j. ?S l) mem),
                                     fs_results := drop k (fs_results (streams ! j))\<rparr> \<and>
                     (?W j = 0 \<longrightarrow> k = 0)"
    by blast
  let ?q' = "q\<lparr>m_files := (m_files q) (fileId := (m_files q fileId)\<lparr>set_files := streams'\<rparr>)\<rparr>"
  have each: "fs_data (set_files (m_files ?q' fileId) ! i) =
                fs_data (streams ! i) @
                take (unat (sizes ! i) div B * B)
                  (drop (\<Sum>j<i. RoundUpToNextBoundaryT (unat (sizes ! j)) B) mem) \<and>
              (unat (sizes ! i) < B \<longrightarrow> set_files (m_files ?q' fileId) ! i = streams ! i)"
    if i: "i < length streams" for i
  proof -
    from e i obtain k where k: "streams' ! i =
        (streams ! i)\<lparr>fs_data := fs_data (streams ! i) @ take (?W i) (drop (\<Sum>l<i. ?S l) mem),
                      fs_results := drop k (fs_results (streams ! i))\<rparr>" "?W i = 0 \<longrightarrow> k = 0"
      by blast
    have "streams' ! i = streams ! i" if "unat (sizes ! i) < B"
    proof -
      have "?W i = 0" using that by simp
      then show ?thesis using k by simp
    qed
    moreover have "fs_data (streams' ! i) = fs_data (streams ! i) @
                take (unat (sizes ! i) div B * B)
                  (drop (\<Sum>j<i. RoundUpToNextBoundaryT (unat (sizes ! j)) B) mem)"
      using k(1) by simp
    ultimately show ?thesis by simp
  qed
  show "\<exists>q'. CmdWriteBuckets dbg q fileId mem sizes =
              Inr (q', \<Sum>j<length streams. RoundUpToNextBoundaryT (unat (sizes ! j)) B) \<and>
           length (set_files (m_files q' fileId)) = length streams \<and>
           m_blockBuffer q' = m_blockBuffer q \<and>
           (\<forall>i<length streams.
              fs_data (set_files (m_files q' fileId) ! i) =
                fs_data (streams ! i) @
                take (unat (sizes ! i) div B * B)
                  (drop (\<Sum>j<i. RoundUpToNextBoundaryT (unat (sizes ! j)) B) mem) \<and>
              (unat (sizes ! i) < B \<longrightarrow> set_files (m_files q' fileId) ! i = streams ! i))"
    using r l each by (intro exI [of _ ?q']) simp
next
  assume h: "\<not> m_useDirectIO q \<and>
     (\<forall>i<length streams. 0 < unat (sizes ! i) \<longrightarrow>
        (\<Sum>j<i. unat (sizes ! j)) + unat (sizes ! i) \<le> length mem)"
  let ?W = "\<lambda>j. unat (sizes ! j)"
  let ?S = "\<lambda>j. unat (sizes ! j)"
  have W: "?W = (\<lambda>j. bucket_writeSize q (unat (sizes ! j)))" using h by (simp add: bucket_writeSize_def)
  have S: "?S = (\<lambda>j. bucket_stride q (unat (sizes ! j)))" using h by (simp add: bucket_stride_def)
  have B: "m_useDirectIO q \<Longrightarrow> 0 < m_blockSize q" using h by simp
  have mem: "\<forall>j<length streams. 0 < ?W j \<longrightarrow> (\<Sum>l<j. ?S l) + ?W j \<le> length mem"
    using h by simp
  from CmdWriteBuckets_ok [OF W S assms(1-4) B mem, of dbg]
  obtain streams' where r: "CmdWriteBuckets dbg q fileId mem sizes =
            Inr (q\<lparr>m_files := (m_files q) (fileId := (m_files q fileId)\<lparr>set_files := streams'\<rparr>)\<rparr>,
                 \<Sum>l<length streams. ?S l)"
    and l: "length streams' = length streams"
    and e: "\<forall>j<length streams. \<exists>k. streams' ! j =
                     (streams ! j)\<lparr>fs_data := fs_data (streams ! j) @
                                       take (?W j) (drop (\<Sum>l<j. ?S l) mem),
                                     fs_results := drop k (fs_results (streams ! j))\<rparr> \<and>
                     (?W j = 0 \<longrightarrow> k = 0)"
    by blast
  let ?q' = "q\<lparr>m_files := (m_files q) (fileId := (m_files q fileId)\<lparr>set_files := streams'\<rparr>)\<rparr>"
  have each: "fs_data (set_files (m_files ?q' fileId) ! i) =
                fs_data (streams ! i) @
                take (unat (sizes ! i)) (drop (\<Sum>j<i. unat (sizes ! j)) mem) \<and>
              (unat (sizes ! i) = 0 \<longrightarrow> set_files (m_files ?q' fileId) ! i = streams ! i)"
    if i: "i < length streams" for i
  proof -
    from e i obtain k where k: "streams' ! i =
        (streams ! i)\<lparr>fs_data := fs_data (streams ! i) @ take (?W i) (drop (\<Sum>l<i. ?S l) mem),
                      fs_results := drop k (fs_results (streams ! i))\<rparr>" "?W i = 0 \<longrightarrow> k = 0"
      by blast
    have "streams' ! i = streams ! i" if "unat (sizes ! i) = 0"
    proof -
      have "?W i = 0" using that by simp
      then show ?thesis using k by simp
    qed
    moreover have "fs_data (streams' ! i) = fs_data (streams ! i) @
                take (unat (sizes ! i)) (drop (\<Sum>j<i. unat (sizes ! j)) mem)"
      using k(1) by simp
    ultimately show ?thesis by simp
  qed
  show "\<exists>q'. CmdWriteBuckets dbg q fileId mem sizes = Inr (q', \<Sum>j<length streams. unat (sizes ! j)) \<and>
           length (set_files (m_files q' fileId)) = length streams \<and>
           m_blockBuffer q' = m_blockBuffer q \<and>
           (\<forall>i<length streams.
              fs_data (set_files (m_files q' fileId) ! i) =
                fs_data (streams ! i) @
                take (unat (sizes ! i)) (drop (\<Sum>j<i. unat (sizes ! j)) mem) \<and>
              (unat (sizes ! i) = 0 \<longrightarrow> set_files (m_files q' fileId) ! i = streams ! i))"
    using r l each by (intro exI [of _ ?q']) simp
qed

theorem C2_CmdWriteBuckets_witness:
  "(\<exists>q'. CmdWriteBuckets True (scenario_queue [[], [], [], []]) Y0 scenario_memory
           [4100, 4096, 0, 8192] = Inr (q', 20480) \<and>
         fs_data (set_files (m_files q' Y0) ! 0) = replicate 4096 0x5A \<and>
         set_files (m_files q' Y0) ! 2 = scenario_streams [[], [], [], []] ! 2) \<and>
   (\<exists>q'. CmdWriteBuckets True ((scenario_queue [[], [], [], []])\<lparr>m_useDirectIO := False\<rparr>) Y0
           scenario_memory [4100, 4096, 0, 8192] = Inr (q', 16388) \<and>
         fs_data (set_files (m_files q' Y0) ! 0) = replicate 4100 0x5A \<and>
         set_files (m_files q' Y0) ! 2 = scenario_streams [[], [], [], []] ! 2)"
proof -
  let ?q = "scenario_queue [[], [], [], []]"
  let ?s = "scenario_streams [[], [], [], []]"
  have f: "set_files (m_files ?q Y0) = ?s" "set_files (m_files (?q\<lparr>m_useDirectIO := False\<rparr>) Y0) = ?s"
    by (simp_all add: scenario_queue_def)
  have ne: "?s \<noteq> []" and len: "length ?s \<le> length [4100, 4096, 0, 8192 :: uint32]"
    and ok: "\<forall>f\<in>set ?s. stream_ok f"
    by (simp_all add: scenario_streams_4 stream_ok_def)
  have b: "m_blockSize ?q = 4096" "m_blockSize (?q\<lparr>m_useDirectIO := False\<rparr>) = 4096"
    by (simp_all add: scenario_queue_def)
  have l4: "length ?s = Suc (Suc (Suc (Suc 0)))" by (simp add: scenario_streams_4)
  have dq: "m_useDirectIO ?q" by (simp add: scenario_queue_def)
  note t1 = C2_CmdWriteBuckets [OF f(1) ne len ok b(1), of scenario_memory True]
  note t2 = C2_CmdWriteBuckets [OF f(2) ne len ok b(2), of scenario_memory True]
  have d: "\<exists>q'. CmdWriteBuckets True ?q Y0 scenario_memory [4100, 4096, 0, 8192] = Inr (q', 20480) \<and>
         fs_data (set_files (m_files q' Y0) ! 0) = replicate 4096 0x5A \<and>
         set_files (m_files q' Y0) ! 2 = ?s ! 2"
    using t1 [THEN conjunct1] dq
    unfolding l4
    by (simp add: All_less_Suc RoundUpToNextBoundaryT_def scenario_memory_def)
      (auto simp add: scenario_streams_4 numeral_2_eq_2)
  have u: "\<exists>q'. CmdWriteBuckets True (?q\<lparr>m_useDirectIO := False\<rparr>) Y0 scenario_memory
           [4100, 4096, 0, 8192] = Inr (q', 16388) \<and>
         fs_data (set_files (m_files q' Y0) ! 0) = replicate 4100 0x5A \<and>
         set_files (m_files q' Y0) ! 2 = ?s ! 2"
    using t2 [THEN conjunct2]
    unfolding l4
    by (simp add: All_less_Suc scenario_memory_def)
      (auto simp add: scenario_streams_4 numeral_2_eq_2)
  show ?thesis using d u by blast
qed

text \<open>
  C3 as stated fails: in the scenario over empty streams, stream 0 holds 4096 bytes after
  the command, not 8192. \<^verbatim>\<open>CmdWriteBuckets\<close> passes the block-aligned size to \<^verbatim>\<open>WriteToFile\<close>, so
  no scratch remainder block is written.
\<close>

theorem C3_bucket_scenario_counterexample:
  "CmdWriteBuckets True (scenario_queue [[], [], [], []]) Y0 scenario_memory [4100, 4096, 0, 8192] =
     Inr (scenario_queue [replicate 4096 0x5A, replicate 4096 0x5A, [], replicate 8192 0x5A], 20480) \<and>
   length (fs_data (set_files (m_files
      (scenario_queue [replicate 4096 0x5A, replicate 4096 0x5A, [], replicate 8192 0x5A]) Y0) ! 0)) = 4096 \<and>
   (4096::nat) \<noteq> 8192"
proof -
  have "20480 \<le> length scenario_memory" by (simp add: scenario_memory_def)
  from scenario_run [OF this, of True "[]" "[]" "[]" "[]"] show ?thesis
    by (simp add: scenario_memory_def scenario_queue_def scenario_streams_4)
qed

text \<open>
  C3 (as the code has it). With four buckets, block size 4096 and direct I/O,
  \<^verbatim>\<open>WriteBuckets(Y0, B, sizes=[4100, 4096, 0, 8192])\<close> grows stream 0 by 4096 bytes (the aligned
  part of its bucket, taken from the buffer), stream 1 by 4096 bytes, leaves stream 2
  untouched, grows stream 3 by 8192 bytes, and consumes an input stride of 20480 bytes.
\<close>

theorem C3_bucket_scenario:
  assumes "20480 \<le> length mem"
  shows "\<exists>q'. CmdWriteBuckets dbg (scenario_queue [d0, d1, d2, d3]) Y0 mem [4100, 4096, 0, 8192] =
           Inr (q', 20480) \<and>
     map fs_data (set_files (m_files q' Y0)) =
       [d0 @ take 4096 mem, d1 @ take 4096 (drop 8192 mem), d2, d3 @ take 8192 (drop 12288 mem)] \<and>
     length (fs_data (set_files (m_files q' Y0) ! 0)) = length d0 + 4096 \<and>
     length (fs_data (set_files (m_files q' Y0) ! 1)) = length d1 + 4096 \<and>
     set_files (m_files q' Y0) ! 2 = set_files (m_files (scenario_queue [d0, d1, d2, d3]) Y0) ! 2 \<and>
     length (fs_data (set_files (m_files q' Y0) ! 3)) = length d3 + 8192 \<and>
     m_blockBuffer q' = m_blockBuffer (scenario_queue [d0, d1, d2, d3])"
proof -
  have m: "min (length mem) 4096 = 4096" "min (length mem - 8192) 4096 = 4096"
    "min (length mem - 12288) 8192 = 8192" using assms by simp_all
  show ?thesis
    by (intro exI [of _ "scenario_queue [d0 @ take 4096 mem, d1 @ take 4096 (drop 8192 mem), d2,
                          d3 @ take 8192 (drop 12288 mem)]"])
      (simp add: scenario_run [OF assms] m, simp add: scenario_queue_def scenario_streams_4 m)
qed

theorem C3_bucket_scenario_witness:
  "(20480::nat) \<le> length scenario_memory \<and>
   (\<exists>q'. CmdWriteBuckets True (scenario_queue [[], [], [], []]) Y0 scenario_memory [4100, 4096, 0, 8192] =
           Inr (q', 20480) \<and>
     map fs_data (set_files (m_files q' Y0)) =
       [replicate 4096 0x5A, replicate 4096 0x5A, [], replicate 8192 0x5A] \<and>
     length (fs_data (set_files (m_files q' Y0) ! 0)) = 4096)"
proof -
  have l: "20480 \<le> length scenario_memory" by (simp add: scenario_memory_def)
  have "\<exists>q'. CmdWriteBuckets True (scenario_queue [[], [], [], []]) Y0 scenario_memory
        [4100, 4096, 0, 8192] = Inr (q', 20480) \<and>
     map fs_data (set_files (m_files q' Y0)) =
       [replicate 4096 0x5A, replicate 4096 0x5A, [], replicate 8192 0x5A] \<and>
     length (fs_data (set_files (m_files q' Y0) ! 0)) = 4096"
    using C3_bucket_scenario [OF l, of True "[]" "[]" "[]" "[]"]
    by (elim exE conjE, intro exI conjI) (simp_all add: scenario_memory_def)
  then show ?thesis using l by blast
qed

section \<open>Properties of the file sets\<close>

subsection \<open>Opening one file\<close>

lemma InitFileSet_body_frame:
  assumes "InitFileSet_body h fileId nm i q = Inr (c, q')"
  shows "m_workDir q' = m_workDir q" "m_useDirectIO q' = m_useDirectIO q"
    "m_filePathBuffer q' = basePath q (if fileId \<noteq> PLOT then tmp_baseName nm i else nm)"
    "set_name (m_files q' fileId) = set_name (m_files q fileId)"
    "length (set_files (m_files q' fileId)) = length (set_files (m_files q fileId))"
    "g \<noteq> fileId \<Longrightarrow> m_files q' g = m_files q g"
    "os_removed q' = os_removed q" "m_commands q' = m_commands q"
    "m_plotHeaderbuffer q' = m_plotHeaderbuffer q" "m_plotHeaderSize q' = m_plotHeaderSize q"
    "m_plotTablesPointers q' = m_plotTablesPointers q"
    "m_filePathBufferSize q' = m_filePathBufferSize q"
    "path_fits q (if fileId \<noteq> PLOT then tmp_baseName nm i else nm)"
  using assms
  by (auto simp add: InitFileSet_body_def sprintf_basePath_def bindE_def Let_def
      split: option.splits if_splits prod.splits)

lemma InitFileSet_body_stream:
  assumes "InitFileSet_body h fileId nm i q = Inr (True, q')"
  shows "\<exists>bs rs. openFile h (basePath q (if fileId \<noteq> PLOT then tmp_baseName nm i else nm)) = Some (bs, rs) \<and>
     set_files (m_files q' fileId) = (set_files (m_files q fileId))
       [i := \<lparr>fs_path = basePath q (if fileId \<noteq> PLOT then tmp_baseName nm i else nm),
              fs_isOpen = True, fs_blockSize = bs, fs_access = ReadWrite, fs_data = [], fs_results = rs\<rparr>] \<and>
     (case m_blockBuffer q of
        None \<Rightarrow> 2 \<le> bs \<and> virtualAlloc h bs \<and> m_blockSize q' = bs \<and> m_blockBuffer q' = Some (replicate bs 0)
      | Some b \<Rightarrow> m_blockSize q' = m_blockSize q \<and> m_blockBuffer q' = Some b \<and>
                  (fileId \<noteq> PLOT \<longrightarrow> bs = m_blockSize q))"
  using assms
  by (auto simp add: InitFileSet_body_def sprintf_basePath_def bindE_def Let_def
      split: option.splits if_splits prod.splits)

lemma InitFileSet_body_False:
  assumes "InitFileSet_body h fileId nm i q = Inr (False, q')"
  shows "fileId = PLOT" "openFile h (basePath q nm) = None"
    "q' = q\<lparr>m_filePathBuffer := basePath q nm\<rparr>"
  using assms
  by (auto simp add: InitFileSet_body_def sprintf_basePath_def bindE_def Let_def
      split: option.splits if_splits prod.splits)

lemma InitFileSet_body_Inl:
  assumes "InitFileSet_body h fileId nm i q = Inl e"
    and "path_fits q (if fileId \<noteq> PLOT then tmp_baseName nm i else nm)"
  shows "\<exists>msg. e = Fatal msg"
  using assms
  by (auto simp add: InitFileSet_body_def sprintf_basePath_def bindE_def Let_def
      split: option.splits if_splits prod.splits)

lemma path_fits_cong:
  "m_workDir q' = m_workDir q \<Longrightarrow> m_filePathBufferSize q' = m_filePathBufferSize q \<Longrightarrow>
   path_fits q' = path_fits q"
  by (simp add: path_fits_def fun_eq_iff)

lemma basePath_ok:
  "take (length (m_workDir q)) (m_filePathBuffer q) = m_workDir q \<Longrightarrow>
   basePath q base = m_workDir q @ base"
  by (simp add: basePath_def)

lemma InitFileSet_loop_cases:
  assumes "InitFileSet_loop h fileId nm n i q = Inr (ok, q')" "i < n"
  obtains (goOn) q1 where "InitFileSet_body h fileId nm i q = Inr (True, q1)"
      "InitFileSet_loop h fileId nm n (Suc i) q1 = Inr (ok, q')"
    | (stop) "InitFileSet_body h fileId nm i q = Inr (False, q')" "\<not> ok"
proof (cases "InitFileSet_body h fileId nm i q")
  case (Inl e)
  then show ?thesis using assms by (subst (asm) InitFileSet_loop.simps) simp
next
  case (Inr x)
  obtain c q1 where x: "x = (c, q1)" by (cases x)
  show ?thesis
  proof (cases c)
    case True
    then show ?thesis using Inr x assms goOn
      by (subst (asm) InitFileSet_loop.simps) (simp del: InitFileSet_loop.simps)
  next
    case False
    then show ?thesis using Inr x assms stop
      by (subst (asm) InitFileSet_loop.simps) (simp del: InitFileSet_loop.simps)
  qed
qed

lemma InitFileSet_loop_frame:
  assumes "InitFileSet_loop h fileId nm n i q = Inr (ok, q')"
    and "take (length (m_workDir q)) (m_filePathBuffer q) = m_workDir q"
  shows "m_workDir q' = m_workDir q \<and>
     take (length (m_workDir q)) (m_filePathBuffer q') = m_workDir q \<and>
     m_useDirectIO q' = m_useDirectIO q \<and>
     set_name (m_files q' fileId) = set_name (m_files q fileId) \<and>
     length (set_files (m_files q' fileId)) = length (set_files (m_files q fileId)) \<and>
     (\<forall>g. g \<noteq> fileId \<longrightarrow> m_files q' g = m_files q g) \<and>
     os_removed q' = os_removed q \<and> m_commands q' = m_commands q \<and>
     m_plotHeaderbuffer q' = m_plotHeaderbuffer q \<and> m_plotHeaderSize q' = m_plotHeaderSize q \<and>
     m_plotTablesPointers q' = m_plotTablesPointers q \<and>
     (\<forall>b. m_blockBuffer q = Some b \<longrightarrow> m_blockSize q' = m_blockSize q \<and> m_blockBuffer q' = Some b) \<and>
     m_filePathBufferSize q' = m_filePathBufferSize q"
  using assms
proof (induction h fileId nm n i q rule: InitFileSet_loop.induct)
  case (1 h fileId nm n i q)
  show ?case
  proof (cases "i < n")
    case False
    then have "q' = q" using "1.prems"(1) by (subst (asm) InitFileSet_loop.simps) simp
    then show ?thesis using "1.prems"(2) by simp
  next
    case True
    from "1.prems"(1) True show ?thesis
    proof (cases rule: InitFileSet_loop_cases)
      case (goOn q1)
      note fr = InitFileSet_body_frame [OF goOn(1)]
      have pb: "take (length (m_workDir q1)) (m_filePathBuffer q1) = m_workDir q1"
        using fr(1,3) "1.prems"(2) by (simp add: basePath_ok)
      have ih: "m_workDir q' = m_workDir q1 \<and>
         take (length (m_workDir q1)) (m_filePathBuffer q') = m_workDir q1 \<and>
         m_useDirectIO q' = m_useDirectIO q1 \<and>
         set_name (m_files q' fileId) = set_name (m_files q1 fileId) \<and>
         length (set_files (m_files q' fileId)) = length (set_files (m_files q1 fileId)) \<and>
         (\<forall>g. g \<noteq> fileId \<longrightarrow> m_files q' g = m_files q1 g) \<and>
         os_removed q' = os_removed q1 \<and> m_commands q' = m_commands q1 \<and>
         m_plotHeaderbuffer q' = m_plotHeaderbuffer q1 \<and> m_plotHeaderSize q' = m_plotHeaderSize q1 \<and>
         m_plotTablesPointers q' = m_plotTablesPointers q1 \<and>
         (\<forall>b. m_blockBuffer q1 = Some b \<longrightarrow> m_blockSize q' = m_blockSize q1 \<and> m_blockBuffer q' = Some b) \<and>
         m_filePathBufferSize q' = m_filePathBufferSize q1"
        using "1.IH" [OF True goOn(1) refl _ _ pb] goOn(2) by simp
      from InitFileSet_body_stream [OF goOn(1)]
      have bb: "\<forall>b. m_blockBuffer q = Some b \<longrightarrow> m_blockSize q1 = m_blockSize q \<and> m_blockBuffer q1 = Some b"
        by (auto split: option.splits)
      show ?thesis using ih fr bb by simp
    next
      case stop
      note f = InitFileSet_body_False [OF stop(1)]
      show ?thesis using "1.prems"(2) by (subst f(3))+ (simp add: basePath_ok)
    qed
  qed
qed

subsection \<open>The loop over the buckets of a set\<close>

lemma InitFileSet_loop_first:
  assumes "InitFileSet_loop h fileId nm n i q = Inr (True, q')"
    and "take (length (m_workDir q)) (m_filePathBuffer q) = m_workDir q"
    and "i < n" and "m_blockBuffer q = None"
  shows "\<exists>bs rs. openFile h (m_workDir q @ (if fileId \<noteq> PLOT then tmp_baseName nm i else nm)) = Some (bs, rs) \<and>
     2 \<le> bs \<and> virtualAlloc h bs \<and> m_blockSize q' = bs \<and> m_blockBuffer q' = Some (replicate bs 0)"
  using assms(1,3)
proof (cases rule: InitFileSet_loop_cases)
  case (goOn q1)
  note fr = InitFileSet_body_frame [OF goOn(1)]
  have pb: "take (length (m_workDir q1)) (m_filePathBuffer q1) = m_workDir q1"
    using fr(1,3) assms(2) by (simp add: basePath_ok)
  from InitFileSet_body_stream [OF goOn(1)] assms(4) obtain bs rs where
    b: "openFile h (basePath q (if fileId \<noteq> PLOT then tmp_baseName nm i else nm)) = Some (bs, rs)"
      "2 \<le> bs" "virtualAlloc h bs" "m_blockSize q1 = bs" "m_blockBuffer q1 = Some (replicate bs 0)"
    by auto
  from InitFileSet_loop_frame [OF goOn(2) pb] b(4,5)
  have "m_blockSize q' = bs" "m_blockBuffer q' = Some (replicate bs 0)" by simp_all
  then show ?thesis using b(1-3) assms(2) by (simp add: basePath_ok)
next
  case stop
  then show ?thesis by simp
qed

lemma InitFileSet_loop_streams:
  assumes "InitFileSet_loop h fileId nm n i q = Inr (True, q')"
    and "take (length (m_workDir q)) (m_filePathBuffer q) = m_workDir q"
    and "length (set_files (m_files q fileId)) = n"
  shows "\<forall>j<n. (j < i \<longrightarrow> set_files (m_files q' fileId) ! j = set_files (m_files q fileId) ! j) \<and>
     (i \<le> j \<longrightarrow> (\<exists>bs rs.
        openFile h (m_workDir q @ (if fileId \<noteq> PLOT then tmp_baseName nm j else nm)) = Some (bs, rs) \<and>
        set_files (m_files q' fileId) ! j =
          \<lparr>fs_path = m_workDir q @ (if fileId \<noteq> PLOT then tmp_baseName nm j else nm),
           fs_isOpen = True, fs_blockSize = bs, fs_access = ReadWrite, fs_data = [], fs_results = rs\<rparr> \<and>
        (fileId \<noteq> PLOT \<longrightarrow> bs = m_blockSize q')))"
  using assms
proof (induction h fileId nm n i q rule: InitFileSet_loop.induct)
  case (1 h fileId nm n i q)
  show ?case
  proof (cases "i < n")
    case False
    then have "q' = q" using "1.prems"(1) by (subst (asm) InitFileSet_loop.simps) simp
    then show ?thesis using False by simp
  next
    case True
    from "1.prems"(1) True show ?thesis
    proof (cases rule: InitFileSet_loop_cases)
      case (goOn q1)
      note fr = InitFileSet_body_frame [OF goOn(1)]
      have pb: "take (length (m_workDir q1)) (m_filePathBuffer q1) = m_workDir q1"
        using fr(1,3) "1.prems"(2) by (simp add: basePath_ok)
      have ln: "length (set_files (m_files q1 fileId)) = n" using fr(5) "1.prems"(3) by simp
      let ?p = "m_workDir q @ (if fileId \<noteq> PLOT then tmp_baseName nm i else nm)"
      from InitFileSet_body_stream [OF goOn(1)] obtain bs rs where
        o: "openFile h ?p = Some (bs, rs)"
        and fs: "set_files (m_files q1 fileId) = (set_files (m_files q fileId))
           [i := \<lparr>fs_path = ?p, fs_isOpen = True, fs_blockSize = bs, fs_access = ReadWrite,
                  fs_data = [], fs_results = rs\<rparr>]"
        and bb: "(case m_blockBuffer q of
            None \<Rightarrow> 2 \<le> bs \<and> virtualAlloc h bs \<and> m_blockSize q1 = bs \<and> m_blockBuffer q1 = Some (replicate bs 0)
          | Some b \<Rightarrow> m_blockSize q1 = m_blockSize q \<and> m_blockBuffer q1 = Some b \<and>
                  (fileId \<noteq> PLOT \<longrightarrow> bs = m_blockSize q))"
        using "1.prems"(2) by (auto simp add: basePath_ok)
      have "\<exists>b. m_blockBuffer q1 = Some b \<and> (fileId \<noteq> PLOT \<longrightarrow> bs = m_blockSize q1)"
        using bb by (cases "m_blockBuffer q") auto
      then have bsq: "fileId \<noteq> PLOT \<longrightarrow> bs = m_blockSize q'"
        using InitFileSet_loop_frame [OF goOn(2) pb] by auto
      have ih: "\<forall>j<n. (j < Suc i \<longrightarrow> set_files (m_files q' fileId) ! j = set_files (m_files q1 fileId) ! j) \<and>
         (Suc i \<le> j \<longrightarrow> (\<exists>bs rs.
            openFile h (m_workDir q @ (if fileId \<noteq> PLOT then tmp_baseName nm j else nm)) = Some (bs, rs) \<and>
            set_files (m_files q' fileId) ! j =
              \<lparr>fs_path = m_workDir q @ (if fileId \<noteq> PLOT then tmp_baseName nm j else nm),
               fs_isOpen = True, fs_blockSize = bs, fs_access = ReadWrite, fs_data = [], fs_results = rs\<rparr> \<and>
            (fileId \<noteq> PLOT \<longrightarrow> bs = m_blockSize q')))"
        using "1.IH" [OF True goOn(1) refl _ _ pb ln] goOn(2) fr(1) by simp
      show ?thesis
      proof (intro allI impI)
        fix j assume j: "j < n"
        consider "j < i" | "j = i" | "i < j" by linarith
        then show "(j < i \<longrightarrow> set_files (m_files q' fileId) ! j = set_files (m_files q fileId) ! j) \<and>
           (i \<le> j \<longrightarrow> (\<exists>bs rs.
              openFile h (m_workDir q @ (if fileId \<noteq> PLOT then tmp_baseName nm j else nm)) = Some (bs, rs) \<and>
              set_files (m_files q' fileId) ! j =
                \<lparr>fs_path = m_workDir q @ (if fileId \<noteq> PLOT then tmp_baseName nm j else nm),
                 fs_isOpen = True, fs_blockSize = bs, fs_access = ReadWrite, fs_data = [], fs_results = rs\<rparr> \<and>
              (fileId \<noteq> PLOT \<longrightarrow> bs = m_blockSize q')))"
        proof cases
          case 1
          then show ?thesis using ih j fs by simp
        next
          case 2
          have "set_files (m_files q' fileId) ! i = set_files (m_files q1 fileId) ! i"
            using ih True by simp
          also have "\<dots> = \<lparr>fs_path = ?p, fs_isOpen = True, fs_blockSize = bs, fs_access = ReadWrite,
                  fs_data = [], fs_results = rs\<rparr>"
            using fs True "1.prems"(3) by simp
          finally show ?thesis using 2 o bsq by auto
        next
          case 3
          then show ?thesis using ih j by simp
        qed
      qed
    next
      case stop
      then show ?thesis by simp
    qed
  qed
qed

lemma InitFileSet_loop_False:
  "InitFileSet_loop h fileId nm n i q = Inr (False, q') \<Longrightarrow> fileId = PLOT"
proof (induction h fileId nm n i q rule: InitFileSet_loop.induct)
  case (1 h fileId nm n i q)
  show ?case
  proof (cases "i < n")
    case False
    then show ?thesis using "1.prems" by (subst (asm) InitFileSet_loop.simps) simp
  next
    case True
    from "1.prems" True show ?thesis
    proof (cases rule: InitFileSet_loop_cases)
      case (goOn q1)
      then show ?thesis using "1.IH" [OF True goOn(1) refl] by simp
    next
      case stop
      then show ?thesis using InitFileSet_body_False(1) by blast
    qed
  qed
qed

lemma InitFileSet_loop_fits:
  "InitFileSet_loop h fileId nm n i q = Inr (True, q') \<Longrightarrow>
   \<forall>j. i \<le> j \<and> j < n \<longrightarrow> path_fits q (if fileId \<noteq> PLOT then tmp_baseName nm j else nm)"
proof (induction h fileId nm n i q rule: InitFileSet_loop.induct)
  case (1 h fileId nm n i q)
  show ?case
  proof (cases "i < n")
    case False
    then show ?thesis by auto
  next
    case True
    from "1.prems" True show ?thesis
    proof (cases rule: InitFileSet_loop_cases)
      case (goOn q1)
      note fr = InitFileSet_body_frame [OF goOn(1)]
      have c: "path_fits q1 = path_fits q" using fr(1,12) by (rule path_fits_cong)
      have ih: "\<forall>j. Suc i \<le> j \<and> j < n \<longrightarrow>
          path_fits q (if fileId \<noteq> PLOT then tmp_baseName nm j else nm)"
        using "1.IH" [OF True goOn(1) refl] goOn(2) c by simp
      show ?thesis
      proof (intro allI impI)
        fix j assume j: "i \<le> j \<and> j < n"
        show "path_fits q (if fileId \<noteq> PLOT then tmp_baseName nm j else nm)"
        proof (cases "j = i")
          case True
          then show ?thesis using fr(13) by (auto split: if_splits)
        next
          case False
          then have "Suc i \<le> j" using j by simp
          then show ?thesis using ih j by (auto split: if_splits)
        qed
      qed
    next
      case stop
      then show ?thesis by simp
    qed
  qed
qed

lemma InitFileSet_loop_Inl:
  "InitFileSet_loop h fileId nm n i q = Inl e \<Longrightarrow>
   \<forall>j. i \<le> j \<and> j < n \<longrightarrow> path_fits q (if fileId \<noteq> PLOT then tmp_baseName nm j else nm) \<Longrightarrow>
   \<exists>msg. e = Fatal msg"
proof (induction h fileId nm n i q rule: InitFileSet_loop.induct)
  case (1 h fileId nm n i q)
  show ?case
  proof (cases "i < n")
    case False
    then show ?thesis using "1.prems"(1) by (subst (asm) InitFileSet_loop.simps) simp
  next
    case True
    have fi: "path_fits q (if fileId \<noteq> PLOT then tmp_baseName nm i else nm)"
      using "1.prems"(2) True by simp
    show ?thesis
    proof (cases "InitFileSet_body h fileId nm i q")
      case (Inl e')
      then have "e = e'" using "1.prems"(1) True by (subst (asm) InitFileSet_loop.simps) simp
      then show ?thesis using InitFileSet_body_Inl [OF Inl fi] by simp
    next
      case (Inr x)
      obtain c q1 where x: "x = (c, q1)" by (cases x)
      show ?thesis
      proof (cases c)
        case True
        note fr = InitFileSet_body_frame [OF Inr [unfolded x]]
        have pc: "path_fits q1 = path_fits q" using fr(1,12) by (rule path_fits_cong)
        have nx: "\<forall>j. i + 1 \<le> j \<and> j < n \<longrightarrow>
            path_fits q1 (if fileId \<noteq> PLOT then tmp_baseName nm j else nm)"
          using "1.prems"(2) pc by simp
        have "InitFileSet_loop h fileId nm n (i + 1) q1 = Inl e"
          using "1.prems"(1) \<open>i < n\<close> Inr x True
          by (subst (asm) InitFileSet_loop.simps) (simp del: InitFileSet_loop.simps)
        then show ?thesis using "1.IH" [OF \<open>i < n\<close> Inr [unfolded x] refl True _ nx] by simp
      next
        case False
        then show ?thesis using "1.prems"(1) \<open>i < n\<close> Inr x
          by (subst (asm) InitFileSet_loop.simps) (simp del: InitFileSet_loop.simps)
      qed
    qed
  qed
qed

lemma InitFileSet_result:
  assumes r: "InitFileSet h q fileId nm n = Inr (ok, q')"
    and pb: "take (length (m_workDir q)) (m_filePathBuffer q) = m_workDir q"
  shows "m_workDir q' = m_workDir q"
    and "take (length (m_workDir q')) (m_filePathBuffer q') = m_workDir q'"
    and "set_name (m_files q' fileId) = nm"
    and "length (set_files (m_files q' fileId)) = n"
    and "m_useDirectIO q' = m_useDirectIO q"
    and "os_removed q' = os_removed q" and "m_commands q' = m_commands q"
    and "m_plotHeaderbuffer q' = m_plotHeaderbuffer q"
    and "m_blockBuffer q = Some b \<Longrightarrow> m_blockSize q' = m_blockSize q \<and> m_blockBuffer q' = Some b"
    and "fileId \<noteq> PLOT \<Longrightarrow> ok"
    and "ok \<Longrightarrow> j < n \<Longrightarrow> \<exists>bs rs.
        openFile h (m_workDir q @ (if fileId \<noteq> PLOT then tmp_baseName nm j else nm)) = Some (bs, rs) \<and>
        set_files (m_files q' fileId) ! j =
          \<lparr>fs_path = m_workDir q @ (if fileId \<noteq> PLOT then tmp_baseName nm j else nm),
           fs_isOpen = True, fs_blockSize = bs, fs_access = ReadWrite, fs_data = [], fs_results = rs\<rparr> \<and>
        (fileId \<noteq> PLOT \<longrightarrow> bs = m_blockSize q')"
    and "ok \<Longrightarrow> 0 < n \<Longrightarrow> m_blockBuffer q = None \<Longrightarrow> \<exists>bs rs.
        openFile h (m_workDir q @ (if fileId \<noteq> PLOT then tmp_baseName nm 0 else nm)) = Some (bs, rs) \<and>
        2 \<le> bs \<and> virtualAlloc h bs \<and> m_blockSize q' = bs \<and> m_blockBuffer q' = Some (replicate bs 0)"
    and "ok \<Longrightarrow> j < n \<Longrightarrow> path_fits q (if fileId \<noteq> PLOT then tmp_baseName nm j else nm)"
    and "m_filePathBufferSize q' = m_filePathBufferSize q"
proof -
  let ?q0 = "q\<lparr>m_files := (m_files q)
       (fileId := \<lparr>set_name = nm, set_files = replicate n closed_stream\<rparr>)\<rparr>"
  have l: "InitFileSet_loop h fileId nm n 0 ?q0 = Inr (ok, q')" using r by (simp add: InitFileSet_def)
  have pb0: "take (length (m_workDir ?q0)) (m_filePathBuffer ?q0) = m_workDir ?q0" using pb by simp
  have ln: "length (set_files (m_files ?q0 fileId)) = n" by simp
  note fr = InitFileSet_loop_frame [OF l pb0]
  show "m_workDir q' = m_workDir q" using fr by simp
  show "take (length (m_workDir q')) (m_filePathBuffer q') = m_workDir q'" using fr by simp
  show "set_name (m_files q' fileId) = nm" using fr by simp
  show "length (set_files (m_files q' fileId)) = n" using fr by simp
  show "m_useDirectIO q' = m_useDirectIO q" using fr by simp
  show "os_removed q' = os_removed q" using fr by simp
  show "m_commands q' = m_commands q" using fr by simp
  show "m_plotHeaderbuffer q' = m_plotHeaderbuffer q" using fr by simp
  show "m_blockSize q' = m_blockSize q \<and> m_blockBuffer q' = Some b" if "m_blockBuffer q = Some b"
    using fr that by simp
  show "ok" if "fileId \<noteq> PLOT"
    using InitFileSet_loop_False [of h fileId nm n 0 ?q0 q'] l that by (cases ok) simp_all
  show "\<exists>bs rs.
        openFile h (m_workDir q @ (if fileId \<noteq> PLOT then tmp_baseName nm j else nm)) = Some (bs, rs) \<and>
        set_files (m_files q' fileId) ! j =
          \<lparr>fs_path = m_workDir q @ (if fileId \<noteq> PLOT then tmp_baseName nm j else nm),
           fs_isOpen = True, fs_blockSize = bs, fs_access = ReadWrite, fs_data = [], fs_results = rs\<rparr> \<and>
        (fileId \<noteq> PLOT \<longrightarrow> bs = m_blockSize q')" if "ok" "j < n"
    using InitFileSet_loop_streams [OF l [unfolded \<open>ok\<close> [THEN eqTrueI]] pb0 ln] that(2) by simp
  show "\<exists>bs rs.
        openFile h (m_workDir q @ (if fileId \<noteq> PLOT then tmp_baseName nm 0 else nm)) = Some (bs, rs) \<and>
        2 \<le> bs \<and> virtualAlloc h bs \<and> m_blockSize q' = bs \<and> m_blockBuffer q' = Some (replicate bs 0)"
    if "ok" "0 < n" "m_blockBuffer q = None"
    using InitFileSet_loop_first [OF l [unfolded \<open>ok\<close> [THEN eqTrueI]] pb0 that(2)] that(3) by simp
  have pc: "path_fits ?q0 = path_fits q" by (rule path_fits_cong) simp_all
  show "path_fits q (if fileId \<noteq> PLOT then tmp_baseName nm j else nm)" if "ok" "j < n"
    using InitFileSet_loop_fits [OF l [unfolded \<open>ok\<close> [THEN eqTrueI]]] that(2) pc by simp
  show "m_filePathBufferSize q' = m_filePathBufferSize q" using fr by simp
qed

lemma InitFileSet_Inl:
  assumes "InitFileSet h q fileId nm n = Inl e"
    and "\<forall>j<n. path_fits q (if fileId \<noteq> PLOT then tmp_baseName nm j else nm)"
  shows "\<exists>msg. e = Fatal msg"
proof -
  let ?q0 = "q\<lparr>m_files := (m_files q)
       (fileId := \<lparr>set_name = nm, set_files = replicate n closed_stream\<rparr>)\<rparr>"
  have pc: "path_fits ?q0 = path_fits q" by (rule path_fits_cong) simp_all
  have "\<forall>j. 0 \<le> j \<and> j < n \<longrightarrow> path_fits ?q0 (if fileId \<noteq> PLOT then tmp_baseName nm j else nm)"
    using assms(2) pc by simp
  from InitFileSet_loop_Inl [OF assms(1) [unfolded InitFileSet_def] this] show ?thesis .
qed

lemma InitFileSet_PLOT_1:
  assumes "take (length (m_workDir q)) (m_filePathBuffer q) = m_workDir q"
    and "m_blockBuffer q = Some b" and "openFile h (m_workDir q @ nm) = Some (bs, rs)"
    and "path_fits q nm"
  shows "InitFileSet h q PLOT nm 1 =
     Inr (True, q\<lparr>m_filePathBuffer := m_workDir q @ nm,
                  m_files := (m_files q)
                    (PLOT := \<lparr>set_name = nm,
                              set_files = [\<lparr>fs_path = m_workDir q @ nm, fs_isOpen = True,
                                            fs_blockSize = bs, fs_access = ReadWrite,
                                            fs_data = [], fs_results = rs\<rparr>]\<rparr>)\<rparr>)"
  using assms
  by (simp add: InitFileSet_def InitFileSet_body_def sprintf_basePath_def basePath_def
      path_fits_def bindE_def Let_def)

lemma scenario_paths:
  "DiskBufferQueue_paths ''/tmp/'' =
     Inr (m_workDir (scenario_queue ds), ''/tmp/'', m_filePathBufferSize (scenario_queue ds))"
  by (simp add: DiskBufferQueue_paths_def PLOT_FILE_LEN_def scenario_queue_def)

lemma scenario_pathbuf:
  "take (length (m_workDir (scenario_queue ds))) (m_filePathBuffer (scenario_queue ds)) =
   m_workDir (scenario_queue ds)"
  by (simp add: scenario_queue_def)

subsection \<open>The claim about the block size\<close>

text \<open>
  C7 as stated fails for the plot file. On a queue whose block size is 4096, with the
  scratch block allocated, \<^verbatim>\<open>InitFileSet( PLOT, "plot.tmp", 1 )\<close> on a device with blocks of 512
  bytes returns \<open>true\<close>, whereas a work file on that device ends initialization; the
  comparison of the block sizes stands under \<^verbatim>\<open>else if( fileId != FileId::PLOT )\<close>.
\<close>

theorem C7_block_size_counterexample:
  "InitFileSet (scenario_host 512) (scenario_queue [[], [], [], []]) PLOT ''plot.tmp'' 1 =
     Inr (True, (scenario_queue [[], [], [], []])
        \<lparr>m_filePathBuffer := ''/tmp/plot.tmp'',
         m_files := (m_files (scenario_queue [[], [], [], []]))
           (PLOT := \<lparr>set_name = ''plot.tmp'',
                     set_files = [\<lparr>fs_path = ''/tmp/plot.tmp'', fs_isOpen = True, fs_blockSize = 512,
                                   fs_access = ReadWrite, fs_data = [], fs_results = []\<rparr>]\<rparr>)\<rparr>) \<and>
   m_blockBuffer (scenario_queue [[], [], [], []]) = Some (replicate 4096 0) \<and>
   m_blockSize (scenario_queue [[], [], [], []]) = 4096 \<and> (512::nat) \<noteq> 4096 \<and>
   InitFileSet (scenario_host 512) (scenario_queue [[], [], [], []]) Y1 ''y1'' 1 =
     Inl (Fatal ''Temporary work files have differing block sizes.'')"
  by (simp add: InitFileSet_def InitFileSet_body_def sprintf_basePath_def basePath_def path_fits_def
      bindE_def tmp_baseName_def Let_def
      scenario_host_def scenario_queue_def)

text \<open>
  C7 (as the code has it). The first file that \<^verbatim>\<open>InitFileSet\<close> opens while there is no scratch
  block records the block size of its device, which is 2 at least, and allocates the scratch
  block of that size. A set other than \<open>PLOT\<close> that is opened returns \<open>true\<close> with every
  stream of the set reporting the block size of the queue, and block size and scratch block,
  once recorded, stay as they are. Once they are recorded, a file of a set other than \<open>PLOT\<close>
  whose device reports a different block size keeps initialization from returning: it ends
  with a fatal error when the file names of the set fit into the path buffer. The plot file
  whose name fits into the path buffer is opened whatever block size its device reports.
\<close>

theorem C7_block_size_check:
  assumes "take (length (m_workDir q)) (m_filePathBuffer q) = m_workDir q"
  shows
   "(m_blockBuffer q = None \<and> 0 < n \<and> InitFileSet h q fileId nm n = Inr (True, q') \<longrightarrow>
       (\<exists>bs rs. openFile h (m_workDir q @ (if fileId \<noteq> PLOT then tmp_baseName nm 0 else nm)) = Some (bs, rs) \<and>
          2 \<le> bs \<and> m_blockSize q' = bs \<and> m_blockBuffer q' = Some (replicate bs 0))) \<and>
    (fileId \<noteq> PLOT \<and> InitFileSet h q fileId nm n = Inr (ok, q') \<longrightarrow>
       ok \<and> (\<forall>i<n. fs_blockSize (set_files (m_files q' fileId) ! i) = m_blockSize q') \<and>
       (\<forall>b. m_blockBuffer q = Some b \<longrightarrow> m_blockSize q' = m_blockSize q \<and> m_blockBuffer q' = Some b)) \<and>
    (fileId \<noteq> PLOT \<and> m_blockBuffer q = Some block \<and> i < n \<and>
     openFile h (m_workDir q @ tmp_baseName nm i) = Some (bs, rs) \<and> bs \<noteq> m_blockSize q \<longrightarrow>
       (\<exists>e. InitFileSet h q fileId nm n = Inl e) \<and>
       ((\<forall>j<n. path_fits q (tmp_baseName nm j)) \<longrightarrow>
          (\<exists>msg. InitFileSet h q fileId nm n = Inl (Fatal msg)))) \<and>
    (m_blockBuffer q = Some block \<and> openFile h (m_workDir q @ nm) = Some (bs, rs) \<longrightarrow>
       (path_fits q nm \<longrightarrow>
          (\<exists>q''. InitFileSet h q PLOT nm 1 = Inr (True, q'') \<and>
             fs_blockSize (set_files (m_files q'' PLOT) ! 0) = bs \<and> m_blockSize q'' = m_blockSize q)) \<and>
       (\<not> path_fits q nm \<longrightarrow> InitFileSet h q PLOT nm 1 = Inl OutOfBounds))"
proof (intro conjI impI)
  assume a: "m_blockBuffer q = None \<and> 0 < n \<and> InitFileSet h q fileId nm n = Inr (True, q')"
  from InitFileSet_result(12) [OF a [THEN conjunct2, THEN conjunct2] assms TrueI] a
  obtain bs rs where
    "openFile h (m_workDir q @ (if fileId \<noteq> PLOT then tmp_baseName nm 0 else nm)) = Some (bs, rs)"
    "2 \<le> bs" "m_blockSize q' = bs" "m_blockBuffer q' = Some (replicate bs 0)" by auto
  then show "\<exists>bs rs. openFile h (m_workDir q @ (if fileId \<noteq> PLOT then tmp_baseName nm 0 else nm)) = Some (bs, rs) \<and>
          2 \<le> bs \<and> m_blockSize q' = bs \<and> m_blockBuffer q' = Some (replicate bs 0)"
    by blast
next
  assume a: "fileId \<noteq> PLOT \<and> InitFileSet h q fileId nm n = Inr (ok, q')"
  note r = InitFileSet_result [OF a [THEN conjunct2] assms]
  show "ok" using r(10) a by simp
  then show "\<forall>i<n. fs_blockSize (set_files (m_files q' fileId) ! i) = m_blockSize q'"
    using r(11) a by fastforce
  show "\<forall>b. m_blockBuffer q = Some b \<longrightarrow> m_blockSize q' = m_blockSize q \<and> m_blockBuffer q' = Some b"
    using r(9) by blast
next
  assume a: "fileId \<noteq> PLOT \<and> m_blockBuffer q = Some block \<and> i < n \<and>
     openFile h (m_workDir q @ tmp_baseName nm i) = Some (bs, rs) \<and> bs \<noteq> m_blockSize q"
  show e: "\<exists>e. InitFileSet h q fileId nm n = Inl e"
  proof (cases "InitFileSet h q fileId nm n")
    case (Inl e)
    then show ?thesis by simp
  next
    case (Inr x)
    obtain ok1 q1 where x: "x = (ok1, q1)" by (cases x)
    note r = InitFileSet_result [OF Inr [unfolded x] assms]
    have ok1 using r(10) a by simp
    from r(11) [OF this, of i] a obtain bs' rs' where
      "openFile h (m_workDir q @ tmp_baseName nm i) = Some (bs', rs')" "bs' = m_blockSize q1"
      by auto
    moreover have "m_blockSize q1 = m_blockSize q" using r(9) a by blast
    ultimately show ?thesis using a by simp
  qed
  assume "\<forall>j<n. path_fits q (tmp_baseName nm j)"
  then have fits: "\<forall>j<n. path_fits q (if fileId \<noteq> PLOT then tmp_baseName nm j else nm)"
    using a by simp
  from e obtain e' where e': "InitFileSet h q fileId nm n = Inl e'" by blast
  from InitFileSet_Inl [OF e' fits] e'
  show "\<exists>msg. InitFileSet h q fileId nm n = Inl (Fatal msg)" by auto
next
  assume a: "m_blockBuffer q = Some block \<and> openFile h (m_workDir q @ nm) = Some (bs, rs)"
    and f: "path_fits q nm"
  show "\<exists>q''. InitFileSet h q PLOT nm 1 = Inr (True, q'') \<and>
          fs_blockSize (set_files (m_files q'' PLOT) ! 0) = bs \<and> m_blockSize q'' = m_blockSize q"
    using InitFileSet_PLOT_1 [OF assms, of block h nm bs rs] a f by simp
next
  assume "\<not> path_fits q nm"
  then show "InitFileSet h q PLOT nm 1 = Inl OutOfBounds"
    by (simp add: InitFileSet_def InitFileSet_body_def sprintf_basePath_def path_fits_def bindE_def)
qed

theorem C7_block_size_check_witness:
  "(\<exists>q'. InitFileSet (scenario_host 4096) ((scenario_queue [[], [], [], []])\<lparr>m_blockBuffer := None\<rparr>)
            Y1 ''y1'' 2 = Inr (True, q') \<and>
          m_blockSize q' = 4096 \<and> m_blockBuffer q' = Some (replicate 4096 0) \<and>
          (\<forall>i<2. fs_blockSize (set_files (m_files q' Y1) ! i) = m_blockSize q')) \<and>
   (\<exists>msg. InitFileSet (scenario_host 512) (scenario_queue [[], [], [], []]) Y1 ''y1'' 2 =
      Inl (Fatal msg)) \<and>
   (\<exists>q''. InitFileSet (scenario_host 512) (scenario_queue [[], [], [], []]) PLOT ''plot.tmp'' 1 =
      Inr (True, q'') \<and> fs_blockSize (set_files (m_files q'' PLOT) ! 0) = 512 \<and> m_blockSize q'' = 4096)"
proof -
  let ?q = "scenario_queue [[], [], [], []]"
  let ?qn = "?q\<lparr>m_blockBuffer := None\<rparr>"
  have pn: "take (length (m_workDir ?qn)) (m_filePathBuffer ?qn) = m_workDir ?qn"
    by (simp add: scenario_queue_def)
  obtain q' where q': "InitFileSet (scenario_host 4096) ?qn Y1 ''y1'' 2 = Inr (True, q')"
    by (simp add: InitFileSet_def InitFileSet_body_def sprintf_basePath_def basePath_def path_fits_def
      bindE_def tmp_baseName_def Let_def
      scenario_host_def scenario_queue_def numeral_2_eq_2)
  note t1 = C7_block_size_check [OF pn, of 2 "scenario_host 4096" Y1 "''y1''" q' True]
  have a: "m_blockSize q' = 4096 \<and> m_blockBuffer q' = Some (replicate 4096 0)"
    using t1 [THEN conjunct1] q'
    by (simp add: scenario_queue_def scenario_host_def)
  have b: "\<forall>i<2. fs_blockSize (set_files (m_files q' Y1) ! i) = m_blockSize q'"
    using t1 [THEN conjunct2, THEN conjunct1] q' by simp
  note t2 = C7_block_size_check [OF scenario_pathbuf, of "[[], [], [], []]" 2 "scenario_host 512" Y1
      "''y1''" _ _ "replicate 4096 0" 0 512 "[]"]
  have f0: "path_fits ?q (tmp_baseName ''y1'' 0)" "path_fits ?q (tmp_baseName ''y1'' (Suc 0))"
    by (simp_all add: path_fits_def tmp_baseName_def scenario_queue_def)
  have f2: "\<forall>j<2. path_fits ?q (tmp_baseName ''y1'' j)"
    unfolding numeral_2_eq_2 All_less_Suc using f0 by (simp del: dec_string.simps)
  have c: "\<exists>msg. InitFileSet (scenario_host 512) ?q Y1 ''y1'' 2 = Inl (Fatal msg)"
    using t2 [THEN conjunct2, THEN conjunct2, THEN conjunct1] f2
    by (simp add: scenario_queue_def scenario_host_def del: dec_string.simps)
  note t3 = C7_block_size_check [OF scenario_pathbuf, of "[[], [], [], []]" _ "scenario_host 512" _
      "''plot.tmp''" _ _ "replicate 4096 0" _ 512 "[]"]
  have d: "\<exists>q''. InitFileSet (scenario_host 512) ?q PLOT ''plot.tmp'' 1 =
      Inr (True, q'') \<and> fs_blockSize (set_files (m_files q'' PLOT) ! 0) = 512 \<and> m_blockSize q'' = 4096"
    using t3 [THEN conjunct2, THEN conjunct2, THEN conjunct2]
    by (simp add: scenario_queue_def scenario_host_def path_fits_def)
  show ?thesis using q' a b c d by blast
qed

subsection \<open>Deleting files\<close>

text \<open>
  For a set opened by \<^verbatim>\<open>InitFileSet\<close> with the name \<open>nm\<close> and \<open>n\<close> buckets, the stream of a
  bucket was opened at the work directory followed by \<open>nm_<bucket>.tmp\<close>, and by \<open>nm\<close> alone
  for \<open>PLOT\<close>. As long as the path fits into the path buffer, which it does for every set
  other than \<open>PLOT\<close>, \<^verbatim>\<open>CmdDeleteFile\<close> removes the work directory followed by
  \<open>nm_<bucket>.tmp\<close> and \<^verbatim>\<open>CmdDeleteBucket\<close> removes these paths for all buckets in order, so
  that the path removed is the path opened if and only if \<open>fileId\<close> is not \<open>PLOT\<close>.
\<close>

lemma delete_stream_ok:
  assumes "take (length (m_workDir q)) (m_filePathBuffer q) = m_workDir q"
    and "bucket < length (set_files (m_files q fileId))"
    and "path_fits q (tmp_baseName (set_name (m_files q fileId)) bucket)"
  shows "delete_stream q fileId bucket =
     Inr (q\<lparr>m_files := (m_files q)
              (fileId := (m_files q fileId)\<lparr>set_files := (set_files (m_files q fileId))
                 [bucket := FileStream_Close (set_files (m_files q fileId) ! bucket)]\<rparr>),
            m_filePathBuffer := m_workDir q @ tmp_baseName (set_name (m_files q fileId)) bucket,
            os_removed := os_removed q @
              [m_workDir q @ tmp_baseName (set_name (m_files q fileId)) bucket]\<rparr>)"
  using assms by (simp add: delete_stream_def Let_def sprintf_basePath_def bindE_def basePath_ok)

lemma delete_stream_overrun:
  assumes "bucket < length (set_files (m_files q fileId))"
    and "\<not> path_fits q (tmp_baseName (set_name (m_files q fileId)) bucket)"
  shows "delete_stream q fileId bucket = Inl OutOfBounds"
  using assms by (simp add: delete_stream_def Let_def sprintf_basePath_def bindE_def)

lemma CmdDeleteBucket_loop_ok:
  assumes "take (length (m_workDir q)) (m_filePathBuffer q) = m_workDir q"
    and "n = length (set_files (m_files q fileId))" and "i \<le> n"
    and "\<forall>j<n. path_fits q (tmp_baseName (set_name (m_files q fileId)) j)"
  shows "\<exists>q'. CmdDeleteBucket_loop fileId i q = Inr q' \<and>
     os_removed q' = os_removed q @
       map (\<lambda>j. m_workDir q @ tmp_baseName (set_name (m_files q fileId)) j) [i..<n]"
  using assms
proof (induction "n - i" arbitrary: i q)
  case 0
  then show ?case by (subst CmdDeleteBucket_loop.simps) simp
next
  case (Suc m)
  then have i: "i < length (set_files (m_files q fileId))" by simp
  have fi: "path_fits q (tmp_baseName (set_name (m_files q fileId)) i)"
    using Suc.prems(2,4) i by simp
  let ?q1 = "q\<lparr>m_files := (m_files q)
              (fileId := (m_files q fileId)\<lparr>set_files := (set_files (m_files q fileId))
                 [i := FileStream_Close (set_files (m_files q fileId) ! i)]\<rparr>),
            m_filePathBuffer := m_workDir q @ tmp_baseName (set_name (m_files q fileId)) i,
            os_removed := os_removed q @
              [m_workDir q @ tmp_baseName (set_name (m_files q fileId)) i]\<rparr>"
  have d: "delete_stream q fileId i = Inr ?q1" using delete_stream_ok [OF Suc.prems(1) i fi] .
  have p1: "m = n - Suc i" using Suc.hyps(2) by simp
  have p2: "take (length (m_workDir ?q1)) (m_filePathBuffer ?q1) = m_workDir ?q1" by simp
  have p3: "n = length (set_files (m_files ?q1 fileId))" using Suc.prems(2) by simp
  have p4: "Suc i \<le> n" using i Suc.prems(2) by simp
  have pc: "path_fits ?q1 = path_fits q" by (rule path_fits_cong) simp_all
  have p5: "\<forall>j<n. path_fits ?q1 (tmp_baseName (set_name (m_files ?q1 fileId)) j)"
    using Suc.prems(4) unfolding pc by simp
  from Suc.hyps(1) [OF p1 p2 p3 p4 p5] obtain q' where
    q': "CmdDeleteBucket_loop fileId (Suc i) ?q1 = Inr q'"
    "os_removed q' = os_removed ?q1 @
       map (\<lambda>j. m_workDir ?q1 @ tmp_baseName (set_name (m_files ?q1 fileId)) j) [Suc i..<n]"
    by blast
  have u: "[i..<n] = i # [Suc i..<n]" using i Suc.prems(2) by (simp add: upt_conv_Cons)
  have "CmdDeleteBucket_loop fileId i q = Inr q'"
    using i d q'(1) by (subst CmdDeleteBucket_loop.simps) (simp del: CmdDeleteBucket_loop.simps)
  moreover have "os_removed q' = os_removed q @
       map (\<lambda>j. m_workDir q @ tmp_baseName (set_name (m_files q fileId)) j) [i..<n]"
    using q'(2) u by simp
  ultimately show ?case by blast
qed

lemma delete_paths:
  assumes "take (length (m_workDir q0)) (m_filePathBuffer q0) = m_workDir q0"
    and "InitFileSet h q0 fileId nm n = Inr (True, q)"
    and "bucket < n"
    and "fileId = PLOT \<Longrightarrow> \<forall>i<n. path_fits q (nm @ ''_'' @ dec_string i @ ''.tmp'')"
  shows "fs_path (set_files (m_files q fileId) ! bucket) =
           m_workDir q @ (if fileId = PLOT then nm else nm @ ''_'' @ dec_string bucket @ ''.tmp'') \<and>
     (\<exists>q'. CmdDeleteFile q fileId bucket = Inr q' \<and>
        os_removed q' = os_removed q @ [m_workDir q @ nm @ ''_'' @ dec_string bucket @ ''.tmp'']) \<and>
     (\<exists>q'. CmdDeleteBucket q fileId = Inr q' \<and>
        os_removed q' = os_removed q @
          map (\<lambda>i. m_workDir q @ nm @ ''_'' @ dec_string i @ ''.tmp'') [0..<n]) \<and>
     (m_workDir q @ nm @ ''_'' @ dec_string bucket @ ''.tmp'' =
        fs_path (set_files (m_files q fileId) ! bucket) \<longleftrightarrow> fileId \<noteq> PLOT)"
proof -
  note r = InitFileSet_result [OF assms(2,1)]
  have pb: "take (length (m_workDir q)) (m_filePathBuffer q) = m_workDir q" using r(2) .
  have ln: "bucket < length (set_files (m_files q fileId))" using r(4) assms(3) by simp
  have pc: "path_fits q = path_fits q0" using r(1) r(14) by (rule path_fits_cong)
  have fits: "\<forall>i<n. path_fits q (tmp_baseName nm i)"
  proof (cases "fileId = PLOT")
    case True
    then show ?thesis using assms(4) by (simp add: tmp_baseName_def del: dec_string.simps)
  next
    case False
    then show ?thesis using r(13) [OF TrueI] pc by simp
  qed
  from r(11) [OF TrueI assms(3)] r(1)
  have p: "fs_path (set_files (m_files q fileId) ! bucket) =
      m_workDir q @ (if fileId = PLOT then nm else tmp_baseName nm bucket)" by auto
  have fb: "path_fits q (tmp_baseName (set_name (m_files q fileId)) bucket)"
    using fits assms(3) r(3) by simp
  have d: "CmdDeleteFile q fileId bucket =
     Inr (q\<lparr>m_files := (m_files q)
              (fileId := (m_files q fileId)\<lparr>set_files := (set_files (m_files q fileId))
                 [bucket := FileStream_Close (set_files (m_files q fileId) ! bucket)]\<rparr>),
            m_filePathBuffer := m_workDir q @ tmp_baseName nm bucket,
            os_removed := os_removed q @ [m_workDir q @ tmp_baseName nm bucket]\<rparr>)"
    unfolding CmdDeleteFile_def using delete_stream_ok [OF pb ln fb] r(3) by simp
  have fa: "\<forall>j<length (set_files (m_files q fileId)).
      path_fits q (tmp_baseName (set_name (m_files q fileId)) j)"
    using fits r(3,4) by simp
  from CmdDeleteBucket_loop_ok [OF pb refl _ fa, of 0] r(3,4)
  have b: "\<exists>q'. CmdDeleteBucket q fileId = Inr q' \<and>
        os_removed q' = os_removed q @ map (\<lambda>i. m_workDir q @ tmp_baseName nm i) [0..<n]"
    by (simp add: CmdDeleteBucket_def)
  have e: "(m_workDir q @ tmp_baseName nm bucket = fs_path (set_files (m_files q fileId) ! bucket))
       \<longleftrightarrow> fileId \<noteq> PLOT"
    unfolding p by (simp add: tmp_baseName_def)
  show ?thesis
    using p d b e unfolding tmp_baseName_def by simp
qed

lemma length_scenario_plot_name: "length scenario_plot_name = 99"
  by (simp add: scenario_plot_name_def)

lemma scenario_plot_opened:
  "InitFileSet (scenario_host 4096) (scenario_queue [[], [], [], []]) PLOT scenario_plot_name 1 =
     Inr (True, scenario_queue_with PLOT scenario_plot_name
                  (scenario_stream (''/tmp/'' @ scenario_plot_name) 4096 []))"
proof -
  let ?q0 = "scenario_queue [[], [], [], []]"
  have "InitFileSet (scenario_host 4096) ?q0 PLOT scenario_plot_name 1 =
     Inr (True, ?q0\<lparr>m_filePathBuffer := m_workDir ?q0 @ scenario_plot_name,
                  m_files := (m_files ?q0)
                    (PLOT := \<lparr>set_name = scenario_plot_name,
                              set_files = [\<lparr>fs_path = m_workDir ?q0 @ scenario_plot_name, fs_isOpen = True,
                                            fs_blockSize = 4096, fs_access = ReadWrite,
                                            fs_data = [], fs_results = []\<rparr>]\<rparr>)\<rparr>)"
    by (rule InitFileSet_PLOT_1 [where b = "replicate 4096 0"])
      (simp_all add: scenario_queue_def scenario_host_def path_fits_def length_scenario_plot_name)
  then show ?thesis
    by (simp add: scenario_queue_with_def scenario_stream_def scenario_queue_def)
qed

text \<open>
  C9, evaluated on the plot file name that the path buffer is sized for. In the work
  directory \<open>/tmp/\<close> the buffer has 106 chars. \<^verbatim>\<open>InitFileSet\<close> opens the plot file at a path that
  takes 105 chars with its NUL; the path that \<^verbatim>\<open>CmdDeleteFile\<close> and \<^verbatim>\<open>CmdDeleteBucket\<close> print
  for it takes 111, so \<^verbatim>\<open>sprintf\<close> writes past the end of the buffer, of which the constructor
  says that it should be enough for all file names.
\<close>

theorem C9_delete_plot_path_overrun:
  "InitFileSet (scenario_host 4096) (scenario_queue [[], [], [], []]) PLOT scenario_plot_name 1 =
     Inr (True, scenario_queue_with PLOT scenario_plot_name
                  (scenario_stream (''/tmp/'' @ scenario_plot_name) 4096 [])) \<and>
   m_filePathBufferSize (scenario_queue_with PLOT scenario_plot_name
     (scenario_stream (''/tmp/'' @ scenario_plot_name) 4096 [])) = 106 \<and>
   length (''/tmp/'' @ scenario_plot_name) + 1 = 105 \<and>
   length (''/tmp/'' @ scenario_plot_name @ ''_0.tmp'') + 1 = 111 \<and>
   CmdDeleteFile (scenario_queue_with PLOT scenario_plot_name
     (scenario_stream (''/tmp/'' @ scenario_plot_name) 4096 [])) PLOT 0 = Inl OutOfBounds \<and>
   CmdDeleteBucket (scenario_queue_with PLOT scenario_plot_name
     (scenario_stream (''/tmp/'' @ scenario_plot_name) 4096 [])) PLOT = Inl OutOfBounds"
proof -
  let ?q = "scenario_queue_with PLOT scenario_plot_name
     (scenario_stream (''/tmp/'' @ scenario_plot_name) 4096 [])"
  have l: "length (set_files (m_files ?q PLOT)) = 1" "set_name (m_files ?q PLOT) = scenario_plot_name"
    by (simp_all add: scenario_queue_with_def)
  have nf: "\<not> path_fits ?q (tmp_baseName (set_name (m_files ?q PLOT)) 0)"
    unfolding l
    by (simp add: path_fits_def tmp_baseName_def scenario_queue_with_def scenario_queue_def
        length_scenario_plot_name)
  have d: "delete_stream ?q PLOT 0 = Inl OutOfBounds"
    by (rule delete_stream_overrun [OF _ nf]) (simp add: scenario_queue_with_def)
  have b: "CmdDeleteBucket ?q PLOT = Inl OutOfBounds"
    unfolding CmdDeleteBucket_def
    by (subst CmdDeleteBucket_loop.simps)
      (simp only: l d, simp del: CmdDeleteBucket_loop.simps)
  have s: "m_filePathBufferSize ?q = 106"
    by (simp add: scenario_queue_with_def scenario_queue_def)
  show ?thesis
    using scenario_plot_opened d b s
    by (simp add: CmdDeleteFile_def length_scenario_plot_name)
qed

section \<open>Properties of the plot header\<close>

subsection \<open>Stores into the header buffer\<close>

lemma put_at_end:
  assumes "length bs \<le> length rest"
  shows "put bs (pre @ rest, length pre) = Inr ((pre @ bs) @ drop (length bs) rest, length (pre @ bs))"
  using assms by (simp add: put_def)

lemma Swap16_bytes: "store16_le (Swap16 x) = [ucast (drop_bit 8 x), ucast x]"
proof -
  have "(ucast (Swap16 x) :: byte) = ucast (drop_bit 8 x)"
    unfolding Swap16_def by (rule bit_eqI) (auto simp add: bit_simps)
  moreover have "(ucast (drop_bit 8 (Swap16 x)) :: byte) = ucast x"
    unfolding Swap16_def by (rule bit_eqI) (auto simp add: bit_simps)
  ultimately show ?thesis by (simp add: store16_le_def)
qed

lemma be16_of_word: "store16_le (Swap16 x) = be16_spec (unat x)"
proof -
  have a: "(ucast (drop_bit 8 x) :: byte) = of_nat (unat x div 256)"
    by (rule word_unat_eq_iff [THEN iffD2])
      (simp add: unsigned_ucast_eq drop_bit_eq_div unat_div unat_of_nat take_bit_eq_mod)
  have b: "(ucast x :: byte) = of_nat (unat x mod 256)"
    by (rule word_unat_eq_iff [THEN iffD2])
      (simp add: unsigned_ucast_eq unat_of_nat take_bit_eq_mod)
  show ?thesis by (simp add: Swap16_bytes be16_spec_def a b)
qed

lemma bindE_Inr: "bindE (Inr x) f = f x"
  by (simp add: bindE_def)

lemma put_7:
  assumes "length a1 + length a2 + length a3 + length a4 + length a5 + length a6 + length a7
             \<le> length hdr"
  shows "bindE (put a1 (hdr, 0)) (\<lambda>s1. bindE (put a2 s1) (\<lambda>s2. bindE (put a3 s2) (\<lambda>s3.
           bindE (put a4 s3) (\<lambda>s4. bindE (put a5 s4) (\<lambda>s5. bindE (put a6 s5) (\<lambda>s6.
           bindE (put a7 s6) F)))))) =
         F (a1 @ a2 @ a3 @ a4 @ a5 @ a6 @ a7 @
              drop (length a1 + length a2 + length a3 + length a4 + length a5 + length a6 + length a7) hdr,
            length a1 + length a2 + length a3 + length a4 + length a5 + length a6 + length a7)"
proof -
  have s1: "put a1 (hdr, 0) = Inr (a1 @ drop (length a1) hdr, length a1)"
    using put_at_end [of a1 hdr "[]"] assms by simp
  have s2: "put a2 (a1 @ drop (length a1) hdr, length a1) =
      Inr (a1 @ a2 @ drop (length a1 + length a2) hdr, length a1 + length a2)"
    using put_at_end [of a2 "drop (length a1) hdr" a1] assms by (simp add: ac_simps)
  have s3: "put a3 (a1 @ a2 @ drop (length a1 + length a2) hdr, length a1 + length a2) =
      Inr (a1 @ a2 @ a3 @ drop (length a1 + length a2 + length a3) hdr,
           length a1 + length a2 + length a3)"
    using put_at_end [of a3 "drop (length a1 + length a2) hdr" "a1 @ a2"] assms
    by (simp add: ac_simps)
  have s4: "put a4 (a1 @ a2 @ a3 @ drop (length a1 + length a2 + length a3) hdr,
                    length a1 + length a2 + length a3) =
      Inr (a1 @ a2 @ a3 @ a4 @ drop (length a1 + length a2 + length a3 + length a4) hdr,
           length a1 + length a2 + length a3 + length a4)"
    using put_at_end [of a4 "drop (length a1 + length a2 + length a3) hdr" "a1 @ a2 @ a3"] assms
    by (simp add: ac_simps)
  have s5: "put a5 (a1 @ a2 @ a3 @ a4 @ drop (length a1 + length a2 + length a3 + length a4) hdr,
                    length a1 + length a2 + length a3 + length a4) =
      Inr (a1 @ a2 @ a3 @ a4 @ a5 @
             drop (length a1 + length a2 + length a3 + length a4 + length a5) hdr,
           length a1 + length a2 + length a3 + length a4 + length a5)"
    using put_at_end [of a5 "drop (length a1 + length a2 + length a3 + length a4) hdr"
        "a1 @ a2 @ a3 @ a4"] assms
    by (simp add: ac_simps)
  have s6: "put a6 (a1 @ a2 @ a3 @ a4 @ a5 @
                      drop (length a1 + length a2 + length a3 + length a4 + length a5) hdr,
                    length a1 + length a2 + length a3 + length a4 + length a5) =
      Inr (a1 @ a2 @ a3 @ a4 @ a5 @ a6 @
             drop (length a1 + length a2 + length a3 + length a4 + length a5 + length a6) hdr,
           length a1 + length a2 + length a3 + length a4 + length a5 + length a6)"
    using put_at_end [of a6 "drop (length a1 + length a2 + length a3 + length a4 + length a5) hdr"
        "a1 @ a2 @ a3 @ a4 @ a5"] assms
    by (simp add: ac_simps)
  have s7: "put a7 (a1 @ a2 @ a3 @ a4 @ a5 @ a6 @
                      drop (length a1 + length a2 + length a3 + length a4 + length a5 + length a6) hdr,
                    length a1 + length a2 + length a3 + length a4 + length a5 + length a6) =
      Inr (a1 @ a2 @ a3 @ a4 @ a5 @ a6 @ a7 @
             drop (length a1 + length a2 + length a3 + length a4 + length a5 + length a6 + length a7) hdr,
           length a1 + length a2 + length a3 + length a4 + length a5 + length a6 + length a7)"
    using put_at_end [of a7
        "drop (length a1 + length a2 + length a3 + length a4 + length a5 + length a6) hdr"
        "a1 @ a2 @ a3 @ a4 @ a5 @ a6"] assms
    by (simp add: ac_simps)
  show ?thesis by (simp only: s1 s2 s3 s4 s5 s6 s7 bindE_Inr)
qed

subsection \<open>The header that \<^verbatim>\<open>OpenPlotFile\<close> encodes\<close>

lemma OpenPlotFile_result:
  assumes pb: "take (length (m_workDir q)) (m_filePathBuffer q) = m_workDir q"
    and bb: "m_blockBuffer q = Some block"
    and op: "openFile h (m_workDir q @ fileName) = Some (bs, rs)"
    and fit: "path_fits q fileName"
    and id: "32 \<le> length plotId"
    and memo: "unat plotMemoSize \<le> length plotMemo"
    and nz: "plotMemoSize \<noteq> 0"
    and fmt: "length (kFormatDescription c) < 65536"
    and hs: "hs = length (kPOSMagic c) + 32 + 1 + 2 + length (kFormatDescription c) + 2 +
                  unat plotMemoSize + 80"
    and buf: "m_plotHeaderbuffer q = None \<and> virtualAlloc h hs \<and> old = replicate hs 0 \<or>
              m_plotHeaderbuffer q = Some old \<and> hs - 80 \<le> length old"
    and hd: "header = plot_header_spec c plotId plotMemo (unat plotMemoSize) (drop (hs - 80) old)"
  shows "OpenPlotFile dbg h c q fileName plotId plotMemo plotMemoSize =
     Inr (q\<lparr>m_filePathBuffer := m_workDir q @ fileName,
            m_files := (m_files q)
              (PLOT := \<lparr>set_name = fileName,
                        set_files = [\<lparr>fs_path = m_workDir q @ fileName, fs_isOpen = True,
                                      fs_blockSize = bs, fs_access = ReadWrite,
                                      fs_data = [], fs_results = rs\<rparr>]\<rparr>),
            m_plotHeaderSize := hs,
            m_plotHeaderbuffer := Some header,
            m_plotTablesPointers := of_nat (hs - 80),
            m_commands :=
              \<lparr>ring_pending = [],
               ring_committed = ring_committed (m_commands q) @ ring_pending (m_commands q) @
                                [WriteFileCmd PLOT 0 header hs]\<rparr>\<rparr>)"
proof -
  note i = InitFileSet_PLOT_1 [OF pb bb op fit]
  have len: "hs - 80 \<le> length old" using buf by auto
  have alloc: "(case m_plotHeaderbuffer q of
                   None \<Rightarrow> if virtualAlloc h hs then Inr (replicate hs 0)
                            else Inl (Fatal ''VirtualAlloc failed.'')
                 | Some b \<Rightarrow> Inr b) = (Inr old :: error + byte list)"
    using buf by auto
  have l16: "\<And>x. length (store16_le x) = 2" by (simp add: store16_le_def)
  have sum: "length (kPOSMagic c) + length (take 32 plotId) + length [of_nat (K c) :: byte] +
      length (store16_le (Swap16 (of_nat (length (kFormatDescription c))))) +
      length (kFormatDescription c) + length (store16_le (Swap16 plotMemoSize)) +
      length (take (unat plotMemoSize) plotMemo) = hs - 80"
    using id memo by (simp add: l16 hs min_def)
  have un: "unat (of_nat (length (kFormatDescription c)) :: uint16) = length (kFormatDescription c)"
    using fmt by (simp add: unat_of_nat take_bit_nat_eq_self)
  have p7: "\<And>F :: byte list \<times> nat \<Rightarrow> error + DiskBufferQueue.
     bindE (put (kPOSMagic c) (old, 0)) (\<lambda>s1.
       bindE (put (take 32 plotId) s1) (\<lambda>s2.
       bindE (put [of_nat (K c)] s2) (\<lambda>s3.
       bindE (put (store16_le (Swap16 (of_nat (length (kFormatDescription c))))) s3) (\<lambda>s4.
       bindE (put (kFormatDescription c) s4) (\<lambda>s5.
       bindE (put (store16_le (Swap16 plotMemoSize)) s5) (\<lambda>s6.
       bindE (put (take (unat plotMemoSize) plotMemo) s6) F)))))) =
     F (header, hs - 80)"
    apply (subst put_7)
    subgoal using len by (simp only: sum)
    apply (simp only: sum)
    apply (simp add: hd plot_header_spec_def be16_of_word un)
    done
  show ?thesis
    unfolding OpenPlotFile_def
    using nz id memo
    apply (simp only: i bindE_Inr assert_fails_def Let_def split simp_thms if_False
        DiskBufferQueue.simps alloc [unfolded hs] hs [symmetric])
    apply (simp add: i bindE_Inr alloc hs [symmetric] p7 Let_def WriteFile_def
        GetCommandObject_def CommitCommands_def)
    done
qed

lemma length_plot_header_spec:
  "length (plot_header_spec c plotId memo m tp) =
     length (kPOSMagic c) + min (length plotId) 32 + 1 + 2 + length (kFormatDescription c) + 2 +
     min (length memo) m + length tp"
  by (simp add: plot_header_spec_def be16_spec_def)

lemma take_plot_header_spec:
  assumes "32 \<le> length plotId" and "m \<le> length memo"
    and "hs = length (kPOSMagic c) + 32 + 1 + 2 + length (kFormatDescription c) + 2 + m + 80"
  shows "take hs (plot_header_spec c plotId memo m tp) = plot_header_spec c plotId memo m (take 80 tp)"
proof -
  define P where "P = plot_header_spec c plotId memo m []"
  have split: "\<And>t. plot_header_spec c plotId memo m t = P @ t"
    by (simp add: P_def plot_header_spec_def)
  have "length P = hs - 80"
    using assms by (simp add: P_def length_plot_header_spec min_def)
  moreover have "80 \<le> hs" using assms by simp
  ultimately have "take hs (P @ tp) = P @ take 80 tp" by simp
  then show ?thesis by (simp only: split)
qed

lemma OpenPlotFile_first_header:
  assumes pb: "take (length (m_workDir q)) (m_filePathBuffer q) = m_workDir q"
    and bb: "m_blockBuffer q = Some block"
    and op: "openFile h (m_workDir q @ fileName) = Some (bs, rs)"
    and fit: "path_fits q fileName"
    and id: "32 \<le> length plotId"
    and memo: "unat plotMemoSize \<le> length plotMemo"
    and nz: "plotMemoSize \<noteq> 0"
    and fmt: "length (kFormatDescription c) < 65536"
    and hs: "hs = length (kPOSMagic c) + 32 + 1 + 2 + length (kFormatDescription c) + 2 +
                  unat plotMemoSize + 80"
    and buf: "m_plotHeaderbuffer q = None" "virtualAlloc h hs"
  shows "\<exists>q'.
     OpenPlotFile dbg h c q fileName plotId plotMemo plotMemoSize = Inr q' \<and>
     m_plotHeaderSize q' = hs \<and>
     m_plotHeaderbuffer q' =
       Some (plot_header_spec c plotId plotMemo (unat plotMemoSize) (replicate 80 0)) \<and>
     length (plot_header_spec c plotId plotMemo (unat plotMemoSize) (replicate 80 0)) = hs \<and>
     m_plotTablesPointers q' =
       of_nat (length (kPOSMagic c) + 32 + 1 + 2 + length (kFormatDescription c) + 2 +
               unat plotMemoSize) \<and>
     m_commands q' =
       \<lparr>ring_pending = [],
        ring_committed = ring_committed (m_commands q) @ ring_pending (m_commands q) @
          [WriteFileCmd PLOT 0
             (plot_header_spec c plotId plotMemo (unat plotMemoSize) (replicate 80 0)) hs]\<rparr>"
proof -
  define header where
    "header = plot_header_spec c plotId plotMemo (unat plotMemoSize) (drop (hs - 80) (replicate hs 0))"
  have h80: "80 \<le> hs" by (simp add: hs)
  have b: "m_plotHeaderbuffer q = None \<and> virtualAlloc h hs \<and> replicate hs 0 = replicate hs 0 \<or>
           m_plotHeaderbuffer q = Some (replicate hs 0) \<and> hs - 80 \<le> length (replicate hs (0::byte))"
    using buf by simp
  note r = OpenPlotFile_result [OF pb bb op fit id memo nz fmt hs b header_def, of dbg]
  have hd: "header = plot_header_spec c plotId plotMemo (unat plotMemoSize) (replicate 80 0)"
    using h80 by (simp add: header_def)
  have ln: "length header = hs"
    unfolding hd using id memo by (simp add: length_plot_header_spec hs min_def)
  have off: "hs - 80 = length (kPOSMagic c) + 32 + 1 + 2 + length (kFormatDescription c) + 2 +
               unat plotMemoSize"
    by (simp add: hs)
  show ?thesis
    apply (rule exI)
    apply (rule conjI, rule r)
    apply (simp only: hd [symmetric] off [symmetric] ln)
    apply simp
    done
qed

lemma length_scenario_plotId: "length scenario_plotId = 32"
  by (simp add: scenario_plotId_def)

lemma replicate_80: "replicate 80 x = x # x # replicate 78 x"
proof -
  have "(80::nat) = Suc (Suc 78)" by simp
  then show ?thesis by (simp only: replicate_Suc)
qed

lemma scenario_first_header:
  "drop 62 (plot_header_spec scenario_constants scenario_plotId [0xAA, 0xBB, 0xCC, 0xDD] 4
              (replicate 80 0)) = [0xCC, 0xDD] @ replicate 80 0"
  by (simp add: plot_header_spec_def be16_spec_def scenario_constants_def length_scenario_plotId)

lemma scenario_small_header:
  "drop 64 (plot_header_spec scenario_constants scenario_plotId [0xAA, 0xBB] 2 (replicate 80 0)) =
     replicate 78 0"
  by (simp add: plot_header_spec_def be16_spec_def scenario_constants_def length_scenario_plotId)

lemma scenario_large_header:
  "take 142 (plot_header_spec scenario_constants scenario_plotId [0xAA, 0xBB, 0xCC, 0xDD] 4
               (replicate 80 0)) =
   plot_header_spec scenario_constants scenario_plotId [0xAA, 0xBB, 0xCC, 0xDD] 4 (replicate 78 0)"
  by (simp add: plot_header_spec_def be16_spec_def scenario_constants_def length_scenario_plotId)

lemma scenario_plot_step:
  assumes wd: "m_workDir q = ''/tmp/''"
    and pb: "take (length (m_workDir q)) (m_filePathBuffer q) = m_workDir q"
    and sz: "m_filePathBufferSize q = 106" and bb: "m_blockBuffer q = Some (replicate 4096 0)"
    and hs: "hs = 60 + length memo + 80" and lm: "length memo = unat n" and nz: "n \<noteq> 0"
    and buf: "m_plotHeaderbuffer q = None \<and> old = replicate hs 0 \<or>
         m_plotHeaderbuffer q = Some old \<and> hs - 80 \<le> length old"
  shows "\<exists>q'. OpenPlotFile False (scenario_host 4096) scenario_constants q ''p.tmp''
             scenario_plotId memo n = Inr q' \<and>
     m_workDir q' = ''/tmp/'' \<and>
     take (length (m_workDir q')) (m_filePathBuffer q') = m_workDir q' \<and>
     m_filePathBufferSize q' = 106 \<and> m_blockBuffer q' = Some (replicate 4096 0) \<and>
     m_plotHeaderSize q' = hs \<and>
     m_plotHeaderbuffer q' =
       Some (plot_header_spec scenario_constants scenario_plotId memo (unat n)
               (drop (hs - 80) old))"
proof -
  define header where
    "header = plot_header_spec scenario_constants scenario_plotId memo (unat n) (drop (hs - 80) old)"
  have op: "openFile (scenario_host 4096) (m_workDir q @ ''p.tmp'') = Some (4096, [])"
    by (simp add: scenario_host_def)
  have fit: "path_fits q ''p.tmp''" by (simp add: path_fits_def wd sz)
  have id: "32 \<le> length scenario_plotId" by (simp add: length_scenario_plotId)
  have memo: "unat n \<le> length memo" using lm by simp
  have fmt: "length (kFormatDescription scenario_constants) < 65536"
    by (simp add: scenario_constants_def)
  have hs': "hs = length (kPOSMagic scenario_constants) + 32 + 1 + 2 +
      length (kFormatDescription scenario_constants) + 2 + unat n + 80"
    using hs lm by (simp add: scenario_constants_def)
  have b: "m_plotHeaderbuffer q = None \<and> virtualAlloc (scenario_host 4096) hs \<and> old = replicate hs 0 \<or>
         m_plotHeaderbuffer q = Some old \<and> hs - 80 \<le> length old"
    using buf by (simp add: scenario_host_def)
  note r = OpenPlotFile_result [OF pb bb op fit id memo nz fmt hs' b header_def, of False]
  show ?thesis
    using wd pb sz bb lm by (simp add: r header_def)
qed

subsection \<open>The claim about the header\<close>

text \<open>
  C6, evaluated on two plots on one queue. The header of the first plot on a queue is the
  header of the spec. \<^verbatim>\<open>OpenPlotFile\<close> allocates the header buffer only when there is none,
  with the size of the first header, and never clears it: the header of a second plot with a
  shorter memo ends with the last bytes \<open>0xCC\<close>, \<open>0xDD\<close> of the first memo and 78 zero bytes
  instead of 80 zero bytes, and for a second plot with a longer memo \<^verbatim>\<open>_plotHeaderSize\<close> is 144
  while the buffer holds 142 bytes, the header without its last two zero bytes.
\<close>

theorem C6_OpenPlotFile_second_plot:
  "header_written scenario_first_plot =
     Some (plot_header_spec scenario_constants scenario_plotId [0xAA, 0xBB, 0xCC, 0xDD] 4
             (replicate 80 0)) \<and>
   header_written scenario_second_plot =
     Some (plot_header_spec scenario_constants scenario_plotId [0xAA, 0xBB] 2
             ([0xCC, 0xDD] @ replicate 78 0)) \<and>
   header_written scenario_second_plot \<noteq>
     Some (plot_header_spec scenario_constants scenario_plotId [0xAA, 0xBB] 2 (replicate 80 0)) \<and>
   header_written scenario_small_plot =
     Some (plot_header_spec scenario_constants scenario_plotId [0xAA, 0xBB] 2 (replicate 80 0)) \<and>
   header_written scenario_large_after_small =
     Some (plot_header_spec scenario_constants scenario_plotId [0xAA, 0xBB, 0xCC, 0xDD] 4
             (replicate 78 0)) \<and>
   length (plot_header_spec scenario_constants scenario_plotId [0xAA, 0xBB, 0xCC, 0xDD] 4
             (replicate 78 0)) = 142 \<and>
   length (plot_header_spec scenario_constants scenario_plotId [0xAA, 0xBB, 0xCC, 0xDD] 4
             (replicate 80 0)) = 144"
proof -
  let ?q0 = "scenario_queue [[], [], [], []]"
  let ?c = scenario_constants
  let ?m4 = "[0xAA, 0xBB, 0xCC, 0xDD] :: byte list"
  let ?m2 = "[0xAA, 0xBB] :: byte list"
  let ?h4 = "plot_header_spec ?c scenario_plotId ?m4 4 (replicate 80 0)"
  let ?h2 = "plot_header_spec ?c scenario_plotId ?m2 2 (replicate 80 0)"
  have q0: "m_workDir ?q0 = ''/tmp/''"
    "take (length (m_workDir ?q0)) (m_filePathBuffer ?q0) = m_workDir ?q0"
    "m_filePathBufferSize ?q0 = 106" "m_blockBuffer ?q0 = Some (replicate 4096 0)"
    "m_plotHeaderbuffer ?q0 = None"
    by (simp_all add: scenario_queue_def)
  have l4: "length ?h4 = 144" and l2: "length ?h2 = 142"
    by (simp_all add: length_plot_header_spec scenario_constants_def length_scenario_plotId)
  from scenario_plot_step [OF q0(1-4), of 144 ?m4 4 "replicate 144 0"] q0(5)
  obtain a where a: "scenario_first_plot = Inr a" "m_workDir a = ''/tmp/''"
    "take (length (m_workDir a)) (m_filePathBuffer a) = m_workDir a" "m_filePathBufferSize a = 106"
    "m_blockBuffer a = Some (replicate 4096 0)" "m_plotHeaderSize a = 144"
    "m_plotHeaderbuffer a = Some ?h4"
    by (auto simp add: scenario_first_plot_def)
  from scenario_plot_step [OF a(2-5), of 142 ?m2 2 ?h4] a(7) l4
  obtain b where b: "scenario_second_plot = Inr b" "m_plotHeaderSize b = 142"
    "m_plotHeaderbuffer b = Some (plot_header_spec ?c scenario_plotId ?m2 2 (drop 62 ?h4))"
    by (auto simp add: scenario_second_plot_def a(1) bindE_Inr)
  have t2: "take 142 (plot_header_spec ?c scenario_plotId ?m2 2 (drop 62 ?h4)) =
      plot_header_spec ?c scenario_plotId ?m2 2 (take 80 (drop 62 ?h4))"
    by (rule take_plot_header_spec) (simp_all add: scenario_constants_def length_scenario_plotId)
  have d: "take 80 (drop 62 ?h4) = [0xCC, 0xDD] @ replicate 78 0"
    by (simp add: scenario_first_header)
  have first: "header_written scenario_first_plot = Some ?h4"
    using l4 by (simp add: a header_written_def)
  have second: "header_written scenario_second_plot =
      Some (plot_header_spec ?c scenario_plotId ?m2 2 ([0xCC, 0xDD] @ replicate 78 0))"
    by (simp add: b header_written_def t2 d)
  have ne: "plot_header_spec ?c scenario_plotId ?m2 2 ([0xCC, 0xDD] @ replicate 78 0) \<noteq> ?h2"
    by (simp add: plot_header_spec_def replicate_80)
  from scenario_plot_step [OF q0(1-4), of 142 ?m2 2 "replicate 142 0"] q0(5)
  obtain s where s: "scenario_small_plot = Inr s" "m_workDir s = ''/tmp/''"
    "take (length (m_workDir s)) (m_filePathBuffer s) = m_workDir s" "m_filePathBufferSize s = 106"
    "m_blockBuffer s = Some (replicate 4096 0)" "m_plotHeaderSize s = 142"
    "m_plotHeaderbuffer s = Some ?h2"
    by (auto simp add: scenario_small_plot_def)
  from scenario_plot_step [OF s(2-5), of 144 ?m4 4 ?h2] s(7) l2
  obtain t where t: "scenario_large_after_small = Inr t" "m_plotHeaderSize t = 144"
    "m_plotHeaderbuffer t = Some (plot_header_spec ?c scenario_plotId ?m4 4 (drop 64 ?h2))"
    by (auto simp add: scenario_large_after_small_def s(1) bindE_Inr)
  have l78: "length (plot_header_spec ?c scenario_plotId ?m4 4 (replicate 78 0)) = 142"
    by (simp add: length_plot_header_spec scenario_constants_def length_scenario_plotId)
  have small: "header_written scenario_small_plot = Some ?h2"
    using l2 by (simp add: s header_written_def)
  have large: "header_written scenario_large_after_small =
      Some (plot_header_spec ?c scenario_plotId ?m4 4 (replicate 78 0))"
    using l78 by (simp add: t header_written_def scenario_small_header)
  show ?thesis using first second ne small large l78 l4 by simp
qed

end
